theory Spec2Isabelle
  imports Complex_Main "HOL-Library.Multiset" "HOL-Library.Log_Nat"
begin

section \<open>PlantID: data model\<close>

text \<open>
  The embedding follows \<^verbatim>\<open>src/PlantIDApp/App.tsx\<close>. A JavaScript number is the real
  number it denotes, and the arithmetic of the source rounds as binary64 does (section
  Binary64 arithmetic). Every call that leaves the component (camera, image picker,
  SQLite, \<^verbatim>\<open>Math.random\<close>) gets its outcome as an explicit argument, so each function
  below is a pure function of the component state and of what the outside world answered.
\<close>

definition SPECIES_NAMES :: "string list" where
  "SPECIES_NAMES =
     [''Species_1'', ''Species_2'', ''Species_3'', ''Species_4'', ''Species_5'',
      ''Species_6'', ''Species_7'', ''Species_8'', ''Species_9'', ''Species_10'',
      ''Species_11'', ''Species_12'', ''Species_13'', ''Species_14'', ''Species_15'',
      ''Species_16'', ''Species_17'', ''Species_18'', ''Species_19'', ''Species_20'']"

record Prediction =
  species :: string
  confidence :: real

text \<open>
  A row of table \<^verbatim>\<open>predictions\<close>. The column \<^verbatim>\<open>timestamp\<close> is filled by
  \<^verbatim>\<open>CURRENT_TIMESTAMP\<close>, a text \<^verbatim>\<open>YYYY-MM-DD HH:MM:SS\<close> whose text order is the order of
  the seconds it denotes: it is modelled as a number of seconds.
\<close>

record HistoryItem =
  h_id :: nat
  h_species :: string
  h_confidence :: real
  h_timestamp :: nat

datatype exn =
    StorageError | CaptureError | PickerError | ClassifierError
  | TypeError | PermissionError | ModelError

datatype completion = Normal | Throws exn

section \<open>The SQLite database\<close>

text \<open>
  \<^verbatim>\<open>db\<close> is the module-level handle of \<^verbatim>\<open>plantid.db\<close>. Its state is whether table
  \<^verbatim>\<open>predictions\<close> exists, the rows in rowid order, and the counter that
  \<^verbatim>\<open>AUTOINCREMENT\<close> keeps in \<^verbatim>\<open>sqlite_sequence\<close> (the largest rowid ever assigned).
  Each statement takes a flag \<open>ok\<close>: when it is \<open>False\<close> the storage layer fails and
  the call throws; a statement is one transaction, so a statement that throws leaves the
  database as it was.
\<close>

record database =
  table_exists :: bool
  rows :: "HistoryItem list"
  seq :: nat

text \<open>\<^verbatim>\<open>CREATE TABLE IF NOT EXISTS predictions (...)\<close>\<close>

definition execSync_create :: "bool \<Rightarrow> database \<Rightarrow> exn + database" where
  "execSync_create ok d =
     (if \<not> ok then Inl StorageError
      else if table_exists d then Inr d
      else Inr \<lparr>table_exists = True, rows = [], seq = 0\<rparr>)"

text \<open>
  The rowid an \<^verbatim>\<open>AUTOINCREMENT\<close> column gives to the next row: one more than the largest
  rowid ever assigned, and than the largest rowid in the table.
\<close>

definition next_id :: "database \<Rightarrow> nat" where
  "next_id d = Suc (max (seq d) (fold max (map h_id (rows d)) 0))"

text \<open>\<^verbatim>\<open>INSERT INTO predictions (species, confidence) VALUES (?, ?)\<close>, at clock \<open>now\<close>.\<close>

definition runSync_insert :: "bool \<Rightarrow> nat \<Rightarrow> string \<Rightarrow> real \<Rightarrow> database \<Rightarrow> exn + database" where
  "runSync_insert ok now sp c d =
     (if \<not> ok \<or> \<not> table_exists d then Inl StorageError
      else Inr (d\<lparr>rows := rows d @
                     [\<lparr>h_id = next_id d, h_species = sp, h_confidence = c, h_timestamp = now\<rparr>],
                  seq := next_id d\<rparr>))"

text \<open>
  \<^verbatim>\<open>SELECT * FROM predictions ORDER BY timestamp DESC LIMIT 20\<close>. The only sort key is
  the timestamp; rows with equal timestamps come out in the order of the table scan, that
  is by ascending rowid (a stable sort).
\<close>

definition order_by_timestamp_desc :: "HistoryItem list \<Rightarrow> HistoryItem list" where
  "order_by_timestamp_desc rs = sort_key (\<lambda>r. - int (h_timestamp r)) rs"

definition getAllSync_recent :: "bool \<Rightarrow> database \<Rightarrow> exn + HistoryItem list" where
  "getAllSync_recent ok d =
     (if \<not> ok \<or> \<not> table_exists d then Inl StorageError
      else Inr (take 20 (order_by_timestamp_desc (rows d))))"

text \<open>\<^verbatim>\<open>DELETE FROM predictions\<close>; the \<^verbatim>\<open>AUTOINCREMENT\<close> counter is kept.\<close>

definition runSync_delete :: "bool \<Rightarrow> database \<Rightarrow> exn + database" where
  "runSync_delete ok d =
     (if \<not> ok \<or> \<not> table_exists d then Inl StorageError
      else Inr (d\<lparr>rows := []\<rparr>))"

section \<open>Binary64 arithmetic\<close>

text \<open>
  A JavaScript number is an IEEE 754 binary64 double. A double is modelled as the real
  number it denotes, and an arithmetic operation as the exact operation followed by
  \<open>fl\<close>, which rounds to the nearest double, a tie going to the even significand. A
  decimal literal of the source denotes the nearest double: \<open>fl 0.85\<close> for
  \<^verbatim>\<open>0.85\<close>. The doubles around \<open>x\<close> are the multiples of \<open>2 powi ulp_exp x\<close>, which is
  52 binary places below the leading bit of \<open>x\<close>, and \<open>2 powi (- 1074)\<close> in the
  subnormal range. Overflow to infinity is left out: no number computed here reaches 32.
\<close>

definition round_even :: "real \<Rightarrow> int" where
  "round_even y =
     (let n = \<lfloor>y\<rfloor>; f = y - of_int n
      in if f < 1 / 2 then n else if 1 / 2 < f then n + 1 else if even n then n else n + 1)"

definition ulp_exp :: "real \<Rightarrow> int" where
  "ulp_exp x = max (bitlen \<lfloor>\<bar>x\<bar> * 2 ^ 1074\<rfloor> - 1075) (- 1022) - 52"

definition fl :: "real \<Rightarrow> real" where
  "fl x = of_int (round_even (x / 2 powi ulp_exp x)) * 2 powi ulp_exp x"

section \<open>The classifier stand-in\<close>

text \<open>
  \<^verbatim>\<open>simulateInference\<close> draws four numbers from \<^verbatim>\<open>Math.random()\<close>, each a double in
  \<open>[0, 1)\<close>; they are the arguments \<open>r0\<close> to \<open>r3\<close>, in the order of the calls. Every
  product and sum is rounded; the index arithmetic is on small integers and exact.
\<close>

definition simulateInference :: "real \<Rightarrow> real \<Rightarrow> real \<Rightarrow> real \<Rightarrow> Prediction list" where
  "simulateInference r0 r1 r2 r3 =
     (let randomIndex = nat \<lfloor>fl (r0 * real (length SPECIES_NAMES))\<rfloor>;
          confidence1 = fl (fl 0.85 + fl (r1 * fl 0.10));
          confidence2 = fl (fl 0.03 + fl (r2 * fl 0.05));
          confidence3 = fl (fl 0.01 + fl (r3 * fl 0.02))
      in [\<lparr>species = SPECIES_NAMES ! randomIndex, confidence = confidence1\<rparr>,
          \<lparr>species = SPECIES_NAMES ! ((randomIndex + 1) mod length SPECIES_NAMES),
           confidence = confidence2\<rparr>,
          \<lparr>species = SPECIES_NAMES ! ((randomIndex + 2) mod length SPECIES_NAMES),
           confidence = confidence3\<rparr>])"

text \<open>What \<^verbatim>\<open>Math.random()\<close> can return: a double, at least 0 and below 1.\<close>

definition random_ok :: "real \<Rightarrow> bool" where
  "random_ok r \<longleftrightarrow> fl r = r \<and> 0 \<le> r \<and> r < 1"

section \<open>The component state\<close>

text \<open>
  The state of \<^verbatim>\<open>PlantIDApp\<close>: the values held by its \<^verbatim>\<open>useState\<close> hooks and by the
  camera permission hook (\<open>None\<close> while the hook has not answered), together with the
  database, the dialogs shown through \<^verbatim>\<open>Alert.alert\<close> (title and message, in order), the
  lines written to the console (without their leading emoji), whether the confirmation
  dialog of \<^verbatim>\<open>clearHistory\<close> is open, and the number of calls of \<^verbatim>\<open>takePicture\<close> and
  \<^verbatim>\<open>pickImage\<close> that are suspended at their \<^verbatim>\<open>await\<close>.
\<close>

datatype tab = TabCamera | TabResults | TabHistory

datatype console_entry = LOG string | ERROR string

record app =
  permission :: "bool option"
  model :: bool
  predictions :: "Prediction list option"
  isLoading :: bool
  activeTab :: tab
  history :: "HistoryItem list"
  capturedImage :: "string option"
  db :: database
  alerts :: "(string \<times> string) list"
  console :: "console_entry list"
  clear_dialog :: bool
  inflight_capture :: nat
  inflight_pick :: nat

definition initial_app :: "database \<Rightarrow> app" where
  "initial_app d =
     \<lparr>permission = None, model = False, predictions = None, isLoading = True,
      activeTab = TabCamera, history = [], capturedImage = None, db = d, alerts = [],
      console = [], clear_dialog = False, inflight_capture = 0, inflight_pick = 0\<rparr>"

definition alert :: "string \<Rightarrow> string \<Rightarrow> app \<Rightarrow> app" where
  "alert title msg s = s\<lparr>alerts := alerts s @ [(title, msg)]\<rparr>"

definition console_log :: "string \<Rightarrow> app \<Rightarrow> app" where
  "console_log msg s = s\<lparr>console := console s @ [LOG msg]\<rparr>"

definition console_error :: "string \<Rightarrow> app \<Rightarrow> app" where
  "console_error msg s = s\<lparr>console := console s @ [ERROR msg]\<rparr>"

text \<open>
  What the outside world answers while one image is processed: the outcome of the call of
  \<^verbatim>\<open>simulateInference()\<close>, whether the \<^verbatim>\<open>INSERT\<close> and the \<^verbatim>\<open>SELECT\<close> succeed, and the
  clock. In the source the call cannot throw and its outcome is
  \<open>Inr (simulateInference r0 r1 r2 r3)\<close>; the outcome is an argument so that the
  \<^verbatim>\<open>try\<close>/\<^verbatim>\<open>catch\<close> around the call can be followed for a classifier that throws (the
  source marks the call as the place of the real inference).
\<close>

record io =
  inference :: "exn + Prediction list"
  ins_ok :: bool
  sel_ok :: bool
  now :: nat

section \<open>Initialisation\<close>

definition initDatabase :: "bool \<Rightarrow> app \<Rightarrow> app" where
  "initDatabase ok s =
     (case execSync_create ok (db s) of
        Inr d \<Rightarrow> console_log ''Database initialized'' (s\<lparr>db := d\<rparr>)
      | Inl e \<Rightarrow> console_error ''Database init error:'' s)"

text \<open>
  \<^verbatim>\<open>loadModel\<close> awaits a timer, which cannot fail in the source; \<open>ok\<close> is the outcome of
  that wait, so that the \<^verbatim>\<open>catch\<close> branch (log and rethrow) can be followed.
\<close>

definition loadModel :: "bool \<Rightarrow> app \<Rightarrow> completion \<times> app" where
  "loadModel ok s =
     (let s1 = console_log ''Loading TFLite model...'' s
      in if ok then (Normal, console_log ''Model loaded'' (s1\<lparr>model := True\<rparr>))
         else (Throws ModelError, console_error ''Model loading failed:'' s1))"

definition initializeApp_catch :: "app \<Rightarrow> app" where
  "initializeApp_catch s =
     (alert ''Error'' ''Failed to initialize app''
        (console_error ''Initialization error:'' s))\<lparr>isLoading := False\<rparr>"

text \<open>
  \<open>requested\<close> is the outcome of \<^verbatim>\<open>requestPermission()\<close> (whether the user granted the
  permission), \<open>db_ok\<close> and \<open>model_ok\<close> those of the two later steps.
\<close>

definition initializeApp :: "exn + bool \<Rightarrow> bool \<Rightarrow> bool \<Rightarrow> app \<Rightarrow> app" where
  "initializeApp requested db_ok model_ok s =
     (let rest = (\<lambda>s0.
            let s1 = initDatabase db_ok s0
            in case loadModel model_ok s1 of
                 (Throws e, s2) \<Rightarrow> initializeApp_catch s2
               | (Normal, s2) \<Rightarrow> s2\<lparr>isLoading := False\<rparr>)
      in if permission s \<noteq> Some True then
           (case requested of
              Inl e \<Rightarrow> initializeApp_catch s
            | Inr granted \<Rightarrow>
                let s0 = s\<lparr>permission := Some granted\<rparr>
                in if \<not> granted then
                     (alert ''Permission Denied'' ''Camera permission is required'' s0)
                       \<lparr>isLoading := False\<rparr>
                   else rest s0)
         else rest s)"

section \<open>History\<close>

definition loadHistory :: "bool \<Rightarrow> app \<Rightarrow> app" where
  "loadHistory ok s =
     (case getAllSync_recent ok (db s) of
        Inr results \<Rightarrow> s\<lparr>history := results\<rparr>
      | Inl e \<Rightarrow> console_error ''Load history error:'' s)"

text \<open>
  \<^verbatim>\<open>savePrediction\<close> returns how it completes together with the state: its \<^verbatim>\<open>catch\<close>
  logs the error and does not rethrow.
\<close>

definition savePrediction ::
  "bool \<Rightarrow> bool \<Rightarrow> nat \<Rightarrow> string \<Rightarrow> real \<Rightarrow> app \<Rightarrow> completion \<times> app" where
  "savePrediction insert_ok select_ok clock sp c s =
     (case runSync_insert insert_ok clock sp c (db s) of
        Inr d \<Rightarrow> (Normal, loadHistory select_ok (console_log ''Prediction saved'' (s\<lparr>db := d\<rparr>)))
      | Inl e \<Rightarrow> (Normal, console_error ''Save error:'' s))"

text \<open>\<^verbatim>\<open>clearHistory\<close> opens the confirmation dialog; its button Clear runs the handler.\<close>

definition clearHistory :: "app \<Rightarrow> app" where
  "clearHistory s =
     (alert ''Clear History'' ''Are you sure you want to delete all predictions?'' s)
       \<lparr>clear_dialog := True\<rparr>"

definition clearHistory_onPress :: "bool \<Rightarrow> app \<Rightarrow> app" where
  "clearHistory_onPress ok s =
     (case runSync_delete ok (db s) of
        Inr d \<Rightarrow> alert ''Success'' ''History cleared'' (s\<lparr>db := d, history := []\<rparr>)
      | Inl e \<Rightarrow> alert ''Error'' ''Failed to clear history''
                  (console_error ''Clear history error:'' s))"

section \<open>What is on screen\<close>

datatype screen = LoadingScreen | CheckingPermissions | PermissionRequired | MainScreen

definition render :: "app \<Rightarrow> screen" where
  "render s =
     (if isLoading s \<and> model s = False then LoadingScreen
      else case permission s of
             None \<Rightarrow> CheckingPermissions
           | Some granted \<Rightarrow> if \<not> granted then PermissionRequired else MainScreen)"

text \<open>\<^verbatim>\<open>cameraRef.current\<close> is set while the \<^verbatim>\<open>CameraView\<close> is mounted.\<close>

definition cameraRef_current :: "app \<Rightarrow> bool" where
  "cameraRef_current s \<longleftrightarrow> render s = MainScreen \<and> activeTab s = TabCamera"

section \<open>Acquisition\<close>

text \<open>
  \<^verbatim>\<open>takePicture\<close> up to its \<^verbatim>\<open>await\<close>, and from there on: \<open>photo\<close> is the outcome of
  \<^verbatim>\<open>takePictureAsync\<close>, the uri of the photo when there is one.
\<close>

definition takePicture :: "app \<Rightarrow> app" where
  "takePicture s =
     (if \<not> cameraRef_current s \<or> \<not> model s then alert ''Error'' ''Camera not ready'' s
      else s\<lparr>isLoading := True, inflight_capture := Suc (inflight_capture s)\<rparr>)"

definition takePicture_catch :: "app \<Rightarrow> app" where
  "takePicture_catch s =
     (alert ''Error'' ''Failed to capture image''
        (console_error ''Capture error:'' s))\<lparr>isLoading := False\<rparr>"

definition takePicture_resume :: "exn + string option \<Rightarrow> io \<Rightarrow> app \<Rightarrow> app" where
  "takePicture_resume photo w s =
     (case photo of
        Inl e \<Rightarrow> takePicture_catch s
      | Inr None \<Rightarrow> s\<lparr>isLoading := False\<rparr>
      | Inr (Some uri) \<Rightarrow>
          if uri = [] then s\<lparr>isLoading := False\<rparr>
          else
            let s1 = s\<lparr>capturedImage := Some uri\<rparr>
            in (case inference w of
                  Inl e \<Rightarrow> takePicture_catch s1
                | Inr predictionResults \<Rightarrow>
                    let s2 = s1\<lparr>predictions := Some predictionResults\<rparr>
                    in (case predictionResults of
                          [] \<Rightarrow> takePicture_catch s2
                        | p # _ \<Rightarrow>
                            (case savePrediction (ins_ok w) (sel_ok w) (now w)
                                    (species p) (confidence p) s2 of
                               (Throws e, s3) \<Rightarrow> takePicture_catch s3
                             | (Normal, s3) \<Rightarrow>
                                 s3\<lparr>activeTab := TabResults, isLoading := False\<rparr>))))"

text \<open>
  The answer of the image picker: \<^verbatim>\<open>canceled\<close>, and the uris of \<^verbatim>\<open>assets\<close> (none when
  the pick was cancelled).
\<close>

record ImagePickerResult =
  canceled :: bool
  assets :: "string list"

definition pickImage :: "app \<Rightarrow> app" where
  "pickImage s = s\<lparr>inflight_pick := Suc (inflight_pick s)\<rparr>"

definition pickImage_catch :: "app \<Rightarrow> app" where
  "pickImage_catch s =
     alert ''Error'' ''Failed to pick image'' (console_error ''Image picker error:'' s)"

definition pickImage_resume :: "exn + ImagePickerResult \<Rightarrow> io \<Rightarrow> app \<Rightarrow> app" where
  "pickImage_resume result w s =
     (case result of
        Inl e \<Rightarrow> pickImage_catch s
      | Inr r \<Rightarrow>
          if \<not> canceled r \<and> assets r \<noteq> [] then
            let s1 = s\<lparr>isLoading := True, capturedImage := Some (hd (assets r))\<rparr>
            in (case inference w of
                  Inl e \<Rightarrow> pickImage_catch s1
                | Inr predictionResults \<Rightarrow>
                    let s2 = s1\<lparr>predictions := Some predictionResults\<rparr>
                    in (case predictionResults of
                          [] \<Rightarrow> pickImage_catch s2
                        | p # _ \<Rightarrow>
                            (case savePrediction (ins_ok w) (sel_ok w) (now w)
                                    (species p) (confidence p) s2 of
                               (Throws e, s3) \<Rightarrow> pickImage_catch s3
                             | (Normal, s3) \<Rightarrow>
                                 s3\<lparr>activeTab := TabResults, isLoading := False\<rparr>)))
          else s)"

section \<open>User events\<close>

text \<open>
  One event is a press on a control that is on screen and enabled, or the settling of a
  suspended call. A press on a control that is absent or disabled, and a settling with
  no suspended call, change nothing. Selecting the history tab runs the effect on
  \<^verbatim>\<open>activeTab\<close>, which calls \<^verbatim>\<open>loadHistory\<close>.
\<close>

datatype event =
    PressCapture
  | CaptureSettled "exn + string option" io
  | PressGallery
  | PickSettled "exn + ImagePickerResult" io
  | PressTab tab bool
  | PressIdentifyAnother
  | PressStartNewScan
  | PressClear
  | PressClearConfirm bool
  | PressClearCancel
  | PressGrantPermission "exn + bool"

fun step :: "event \<Rightarrow> app \<Rightarrow> app" where
  "step PressCapture s =
     (if render s = MainScreen \<and> activeTab s = TabCamera \<and> \<not> isLoading s
      then takePicture s else s)"
| "step (CaptureSettled photo w) s =
     (if inflight_capture s = 0 then s
      else takePicture_resume photo w (s\<lparr>inflight_capture := inflight_capture s - 1\<rparr>))"
| "step PressGallery s =
     (if render s = MainScreen \<and> activeTab s = TabCamera then pickImage s else s)"
| "step (PickSettled result w) s =
     (if inflight_pick s = 0 then s
      else pickImage_resume result w (s\<lparr>inflight_pick := inflight_pick s - 1\<rparr>))"
| "step (PressTab t select_ok) s =
     (if render s \<noteq> MainScreen \<or> (t = TabResults \<and> predictions s = None) then s
      else let s' = s\<lparr>activeTab := t\<rparr>
           in if t = TabHistory \<and> activeTab s \<noteq> TabHistory then loadHistory select_ok s'
              else s')"
| "step PressIdentifyAnother s =
     (if render s = MainScreen \<and> activeTab s = TabResults \<and> predictions s \<noteq> None
      then s\<lparr>predictions := None, capturedImage := None, activeTab := TabCamera\<rparr>
      else s)"
| "step PressStartNewScan s =
     (if render s = MainScreen \<and> activeTab s = TabHistory
      then s\<lparr>activeTab := TabCamera\<rparr> else s)"
| "step PressClear s =
     (if render s = MainScreen \<and> activeTab s = TabHistory \<and> history s \<noteq> []
      then clearHistory s else s)"
| "step (PressClearConfirm ok) s =
     (if clear_dialog s then clearHistory_onPress ok (s\<lparr>clear_dialog := False\<rparr>) else s)"
| "step PressClearCancel s = s\<lparr>clear_dialog := False\<rparr>"
| "step (PressGrantPermission requested) s =
     (if render s = PermissionRequired
      then (case requested of Inr granted \<Rightarrow> s\<lparr>permission := Some granted\<rparr> | Inl e \<Rightarrow> s)
      else s)"

fun run :: "event list \<Rightarrow> app \<Rightarrow> app" where
  "run [] s = s"
| "run (e # es) s = run es (step e s)"

section \<open>Concrete stores and runs\<close>

definition empty_db :: database where
  "empty_db = \<lparr>table_exists = True, rows = [], seq = 0\<rparr>"

definition no_db :: database where
  "no_db = \<lparr>table_exists = False, rows = [], seq = 0\<rparr>"

text \<open>Two predictions saved within the same second, on an empty table.\<close>

definition two_appends_same_second :: app where
  "two_appends_same_second =
     snd (savePrediction True True 100 ''Species_9'' 0.88
       (snd (savePrediction True True 100 ''Species_4'' 0.91 (initial_app empty_db))))"

text \<open>The app after a start-up in which every step succeeded, on an empty table.\<close>

definition ready_app :: app where
  "ready_app = initializeApp (Inr True) True True (initial_app empty_db)"

text \<open>
  An image processed with \<^verbatim>\<open>Math.random\<close> answering \<open>1 / 2\<close> four times, at clock 100:
  with a working store, and with an \<^verbatim>\<open>INSERT\<close> that fails.
\<close>

definition io_ok :: io where
  "io_ok = \<lparr>inference = Inr (simulateInference (1 / 2) (1 / 2) (1 / 2) (1 / 2)),
            ins_ok = True, sel_ok = True, now = 100\<rparr>"

definition io_insert_fails :: io where
  "io_insert_fails = io_ok\<lparr>ins_ok := False\<rparr>"

text \<open>A start-up in which the permission is granted and creating the table fails.\<close>

definition start_with_failing_schema :: app where
  "start_with_failing_schema = initializeApp (Inr True) False True (initial_app no_db)"

section \<open>Runs that overlap\<close>

text \<open>The events of the gallery path, and what holds of the captures in flight.\<close>

fun gallery_event :: "event \<Rightarrow> bool" where
  "gallery_event PressGallery = True"
| "gallery_event (PickSettled result w) = True"
| "gallery_event e = False"

definition capture_guard :: "app \<Rightarrow> bool" where
  "capture_guard s \<longleftrightarrow> inflight_capture s = 0 \<or> (inflight_capture s = 1 \<and> isLoading s)"

text \<open>
  A second image, with \<^verbatim>\<open>Math.random\<close> answering 0 four times, at clock 101; the gallery
  button pressed while a capture is in flight; the capture settling; then the pick.
\<close>

definition io_other :: io where
  "io_other = \<lparr>inference = Inr (simulateInference 0 0 0 0),
               ins_ok = True, sel_ok = True, now = 101\<rparr>"

definition gallery_during_capture :: app where
  "gallery_during_capture = run [PressCapture, PressGallery] ready_app"

definition first_run_settled :: app where
  "first_run_settled =
     step (CaptureSettled (Inr (Some ''a.jpg'')) io_ok) gallery_during_capture"

definition both_runs_settled :: app where
  "both_runs_settled =
     step (PickSettled (Inr \<lparr>canceled = False, assets = [''b.jpg'']\<rparr>) io_other)
       first_run_settled"

section \<open>Properties of binary64 rounding\<close>

lemma round_even_floor: "\<lfloor>y\<rfloor> \<le> round_even y \<and> round_even y \<le> \<lfloor>y\<rfloor> + 1"
  by (simp add: round_even_def Let_def)

lemma round_even_mono:
  assumes "x \<le> y"
  shows "round_even x \<le> round_even y"
proof (cases "\<lfloor>x\<rfloor> = \<lfloor>y\<rfloor>")
  case True
  with assms show ?thesis
    by (auto simp: round_even_def Let_def)
next
  case False
  with assms have "\<lfloor>x\<rfloor> + 1 \<le> \<lfloor>y\<rfloor>"
    using floor_mono [OF assms] by linarith
  with round_even_floor [of x] round_even_floor [of y] show ?thesis
    by linarith
qed

lemma round_even_of_int: "round_even (of_int n) = n"
  by (simp add: round_even_def)

lemma round_even_nearest:
  assumes "\<bar>y - of_int n\<bar> < 1 / 2"
  shows "round_even y = n"
proof (cases "of_int n \<le> y")
  case True
  with assms have "\<lfloor>y\<rfloor> = n" by (intro floor_unique) linarith+
  with assms True show ?thesis by (simp add: round_even_def Let_def)
next
  case False
  have "of_int (n - 1) \<le> y" "y < of_int (n - 1) + 1"
    using assms False by (simp_all add: abs_less_iff)
  then have "\<lfloor>y\<rfloor> = n - 1" by (rule floor_unique)
  with assms False show ?thesis by (auto simp: round_even_def Let_def)
qed

lemma bitlen_eqI: "2 ^ k \<le> m \<Longrightarrow> m < 2 ^ Suc k \<Longrightarrow> bitlen m = int k + 1"
  by (intro antisym) (auto simp: bitlen_le_iff_power bitlen_ge_iff_power nat_add_distrib)



lemma binade_exists:
  assumes "0 < (x::real)"
  shows "\<exists>e. 2 powi e \<le> x \<and> x < 2 powi (e + 1)"
proof (intro exI conjI)
  have "(2::real) powi \<lfloor>log 2 x\<rfloor> = 2 powr (of_int \<lfloor>log 2 x\<rfloor>)"
    by (simp add: powr_real_of_int')
  also have "\<dots> \<le> 2 powr (log 2 x)" by (simp add: powr_mono)
  also have "\<dots> = x" using assms by simp
  finally show "2 powi \<lfloor>log 2 x\<rfloor> \<le> x" .
  have "x = 2 powr (log 2 x)" using assms by simp
  also have "\<dots> < 2 powr (of_int (\<lfloor>log 2 x\<rfloor> + 1))"
  proof (rule powr_less_mono)
    show "log 2 x < of_int (\<lfloor>log 2 x\<rfloor> + 1)" by linarith
    show "(1::real) < 2" by simp
  qed
  also have "\<dots> = 2 powi (\<lfloor>log 2 x\<rfloor> + 1)"
    using powr_real_of_int' [of "2::real" "\<lfloor>log 2 x\<rfloor> + 1"] by simp
  finally show "x < 2 powi (\<lfloor>log 2 x\<rfloor> + 1)" .
qed


lemma pow2_shift: "(2::real) powi e * 2 powi 1074 = 2 powi (e + 1074)"
  by (simp add: power_int_add)

lemma ulp_exp_normal:
  assumes "2 powi e \<le> \<bar>x\<bar>" and "\<bar>x\<bar> < 2 powi (e + 1)" and "- 1022 \<le> e"
  shows "ulp_exp x = e - 52"
proof -
  define k where "k = nat (e + 1074)"
  define B :: real where "B = 2 powi 1074"
  have B: "B = 2 ^ 1074" "0 < B" by (simp_all add: B_def)
  have k: "int k = e + 1074" using assms(3) by (simp add: k_def)
  have p: "(2::real) powi e * B = 2 ^ k"
    unfolding B_def pow2_shift k [symmetric] by simp
  have q: "(2::real) powi (e + 1) * B = 2 ^ Suc k"
  proof -
    have "int (Suc k) = e + 1 + 1074" using k by simp
    then show ?thesis unfolding B_def pow2_shift by (metis power_int_of_nat)
  qed
  have lo: "(2::real) ^ k \<le> \<bar>x\<bar> * B"
    unfolding p [symmetric] using assms(1) B(2) by (intro mult_right_mono) simp_all
  have hi: "\<bar>x\<bar> * B < (2::real) ^ Suc k"
    unfolding q [symmetric] using assms(2) B(2) by (intro mult_strict_right_mono) simp_all
  have "(2::int) ^ k \<le> \<lfloor>\<bar>x\<bar> * B\<rfloor>"
    using lo by (simp add: le_floor_iff)
  moreover have "\<lfloor>\<bar>x\<bar> * B\<rfloor> < (2::int) ^ Suc k"
    using hi by (simp add: floor_less_iff)
  ultimately have "bitlen \<lfloor>\<bar>x\<bar> * B\<rfloor> = int k + 1"
    by (rule bitlen_eqI)
  then have "bitlen \<lfloor>\<bar>x\<bar> * B\<rfloor> - 1075 = e"
    using k by simp
  then show ?thesis
    unfolding ulp_exp_def B(1) [symmetric] using assms(3) by simp
qed




lemma ulp_exp_subnormal:
  assumes "\<bar>x\<bar> < 2 powi (- 1022)"
  shows "ulp_exp x = - 1074"
proof -
  define B :: real where "B = 2 powi 1074"
  have B: "B = 2 ^ 1074" "0 < B" by (simp_all add: B_def)
  have "(2::real) powi (- 1022) * B = 2 powi 52"
    unfolding B_def pow2_shift by simp
  then have "\<bar>x\<bar> * B < 2 ^ 52"
    using mult_strict_right_mono [OF assms B(2)] by simp
  then have "\<lfloor>\<bar>x\<bar> * B\<rfloor> < (2::int) ^ 52"
    by (simp add: floor_less_iff)
  then have "bitlen \<lfloor>\<bar>x\<bar> * B\<rfloor> \<le> 52"
    by (simp add: bitlen_le_iff_power)
  then show ?thesis
    unfolding ulp_exp_def B(1) [symmetric] by simp
qed

lemma fl_zero: "fl 0 = 0"
  by (simp add: fl_def round_even_def)

lemma fl_normal:
  assumes "2 powi e \<le> \<bar>x\<bar>" and "\<bar>x\<bar> < 2 powi (e + 1)" and "- 1022 \<le> e"
  shows "fl x = of_int (round_even (x / 2 powi (e - 52))) * 2 powi (e - 52)"
  by (simp add: fl_def ulp_exp_normal [OF assms])

lemma fl_subnormal:
  assumes "\<bar>x\<bar> < 2 powi (- 1022)"
  shows "fl x = of_int (round_even (x / 2 powi (- 1074))) * 2 powi (- 1074)"
  by (simp add: fl_def ulp_exp_subnormal [OF assms])

text \<open>Rounding stays within the binade.\<close>

lemma fl_binade:
  assumes "2 powi e \<le> x" and "x < 2 powi (e + 1)" and "- 1022 \<le> e"
  shows "2 powi e \<le> fl x \<and> fl x \<le> 2 powi (e + 1)"
proof -
  define u :: real where "u = 2 powi (e - 52)"
  have u: "0 < u" by (simp add: u_def)
  have x: "0 < x" using assms(1) by (smt (verit) zero_less_power_int)
  have lo: "2 powi e = of_int (2 ^ 52) * u"
    using power_int_add [of "2::real" 52 "e - 52"] by (simp add: u_def)
  have hi: "2 powi (e + 1) = of_int (2 ^ 53) * u"
    using power_int_add [of "2::real" 53 "e - 52"] by (simp add: u_def add.commute)
  have f: "fl x = of_int (round_even (x / u)) * u"
    unfolding u_def using assms x by (intro fl_normal) simp_all
  have "of_int (2 ^ 52) \<le> x / u"
    using assms(1) u unfolding lo by (simp add: pos_le_divide_eq)
  then have a: "2 ^ 52 \<le> round_even (x / u)"
    using round_even_mono [of "of_int (2 ^ 52)" "x / u"] by (simp only: round_even_of_int)
  have "x / u \<le> of_int (2 ^ 53)"
    using assms(2) u unfolding hi by (simp add: pos_divide_le_eq)
  then have b: "round_even (x / u) \<le> 2 ^ 53"
    using round_even_mono [of "x / u" "of_int (2 ^ 53)"] by (simp only: round_even_of_int)
  have "of_int (2 ^ 52) * u \<le> of_int (round_even (x / u)) * u"
    using a u by (intro mult_right_mono) simp_all
  moreover have "of_int (round_even (x / u)) * u \<le> of_int (2 ^ 53) * u"
    using b u by (intro mult_right_mono) simp_all
  ultimately show ?thesis
    unfolding f lo hi by simp
qed

lemma fl_subnormal_range:
  assumes "0 \<le> x" and "x < 2 powi (- 1022)"
  shows "0 \<le> fl x \<and> fl x \<le> 2 powi (- 1022)"
proof -
  define u :: real where "u = 2 powi (- 1074)"
  have u: "0 < u" by (simp add: u_def)
  have hi: "2 powi (- 1022) = of_int (2 ^ 52) * u"
    using power_int_add [of "2::real" 52 "- 1074"] by (simp add: u_def)
  have f: "fl x = of_int (round_even (x / u)) * u"
    unfolding u_def using assms by (intro fl_subnormal) simp_all
  have "of_int 0 \<le> x / u" using assms(1) u by simp
  then have a: "0 \<le> round_even (x / u)"
    using round_even_mono [of "of_int 0" "x / u"] by (simp only: round_even_of_int)
  have "x / u \<le> of_int (2 ^ 52)"
    using assms(2) u unfolding hi by (simp add: pos_divide_le_eq)
  then have b: "round_even (x / u) \<le> 2 ^ 52"
    using round_even_mono [of "x / u" "of_int (2 ^ 52)"] by (simp only: round_even_of_int)
  have "0 \<le> of_int (round_even (x / u)) * u"
    using a u by simp
  moreover have "of_int (round_even (x / u)) * u \<le> of_int (2 ^ 52) * u"
    using b u by (intro mult_right_mono) simp_all
  ultimately show ?thesis
    unfolding f hi by simp
qed




lemma pow2_order:
  assumes "(2::real) powi a \<le> z" and "z < 2 powi b"
  shows "a < b"
proof (rule ccontr)
  assume "\<not> a < b"
  then have "(2::real) powi b \<le> 2 powi a"
    by (intro power_int_increasing) simp_all
  with assms show False by linarith
qed

lemma fl_same_ulp:
  assumes "x \<le> y" and "0 < u"
  shows "of_int (round_even (x / u)) * u \<le> of_int (round_even (y / u)) * u"
proof -
  have "x / u \<le> y / u" using assms by (simp add: divide_right_mono)
  then have "round_even (x / u) \<le> round_even (y / u)" by (rule round_even_mono)
  then show ?thesis using assms(2) by (intro mult_right_mono) simp_all
qed

lemma fl_mono:
  assumes "0 \<le> x" and "x \<le> y"
  shows "fl x \<le> fl y"
proof (cases "y < 2 powi (- 1022)")
  case True
  with assms have "fl x = of_int (round_even (x / 2 powi (- 1074))) * 2 powi (- 1074)"
    "fl y = of_int (round_even (y / 2 powi (- 1074))) * 2 powi (- 1074)"
    by (simp_all add: fl_subnormal)
  then show ?thesis using fl_same_ulp [OF assms(2), of "2 powi (- 1074)"] by simp
next
  case False
  then have y: "2 powi (- 1022) \<le> y" by simp
  then have "0 < y" by (smt (verit) zero_less_power_int)
  then obtain ey where ey: "2 powi ey \<le> y" "y < 2 powi (ey + 1)"
    using binade_exists by blast
  have "- 1022 < ey + 1" using y ey(2) by (rule pow2_order)
  then have ey_lo: "- 1022 \<le> ey" by simp
  have fy: "2 powi ey \<le> fl y" using fl_binade [OF ey ey_lo] by simp
  show ?thesis
  proof (cases "x < 2 powi (- 1022)")
    case True
    then have "fl x \<le> 2 powi (- 1022)"
      using fl_subnormal_range [OF assms(1)] by simp
    also have "\<dots> \<le> 2 powi ey"
      using ey_lo by (intro power_int_increasing) simp_all
    finally show ?thesis using fy by simp
  next
    case False
    then have x: "2 powi (- 1022) \<le> x" by simp
    then have "0 < x" by (smt (verit) zero_less_power_int)
    then obtain ex where ex: "2 powi ex \<le> x" "x < 2 powi (ex + 1)"
      using binade_exists by blast
    have "- 1022 < ex + 1" using x ex(2) by (rule pow2_order)
    then have ex_lo: "- 1022 \<le> ex" by simp
    have "2 powi ex \<le> y" using ex(1) assms(2) by simp
    then have "ex < ey + 1" using ey(2) by (rule pow2_order)
    then consider "ex = ey" | "ex + 1 \<le> ey" by linarith
    then show ?thesis
    proof cases
      case 1
      have "fl x = of_int (round_even (x / 2 powi (ey - 52))) * 2 powi (ey - 52)"
        using ex ex_lo \<open>0 < x\<close> unfolding 1 by (intro fl_normal) simp_all
      moreover have "fl y = of_int (round_even (y / 2 powi (ey - 52))) * 2 powi (ey - 52)"
        using ey ey_lo \<open>0 < y\<close> by (intro fl_normal) simp_all
      ultimately show ?thesis
        using fl_same_ulp [OF assms(2), of "2 powi (ey - 52)"] by simp
    next
      case 2
      have "fl x \<le> 2 powi (ex + 1)" using fl_binade [OF ex ex_lo] by simp
      also have "\<dots> \<le> 2 powi ey"
        using 2 by (intro power_int_increasing) simp_all
      finally show ?thesis using fy by simp
    qed
  qed
qed

lemma fl_eval:
  assumes "2 powi e \<le> x" and "x < 2 powi (e + 1)" and "- 1022 \<le> e"
    and "\<bar>x / 2 powi (e - 52) - of_int n\<bar> < 1 / 2"
  shows "fl x = of_int n * 2 powi (e - 52)"
proof -
  have "0 < x" using assms(1) by (smt (verit) zero_less_power_int)
  then have "fl x = of_int (round_even (x / 2 powi (e - 52))) * 2 powi (e - 52)"
    using assms(1-3) by (intro fl_normal) simp_all
  then show ?thesis by (simp add: round_even_nearest [OF assms(4)])
qed

lemma double_below_one:
  assumes "fl r = r" and "r < 1"
  shows "r \<le> 1 - 1 / 2 ^ 53"
proof (cases "r < 1 / 2")
  case True
  have "(1::real) / 2 \<le> 1 - 1 / 2 ^ 53" by simp
  with True show ?thesis by linarith
next
  case False
  define k where "k = round_even (r / 2 powi (- 53))"
  define P :: int where "P = 2 ^ 53"
  have P: "0 < P" "(2::real) ^ 53 = of_int P" by (simp_all add: P_def)
  have u: "(2::real) powi (- 53) = 1 / of_int P"
    unfolding P(2) [symmetric] by (simp add: power_int_minus field_simps)
  have "fl r = of_int (round_even (r / 2 powi (- 1 - 52))) * 2 powi (- 1 - 52)"
    using False assms(2) by (intro fl_normal) (simp_all add: power_int_minus)
  then have "fl r = of_int k * 2 powi (- 53)"
    by (simp add: k_def)
  then have r: "r = of_int k / of_int P"
    unfolding u assms(1) by simp
  have "of_int k < (of_int P :: real)"
    using assms(2) P(1) unfolding r by (simp add: pos_divide_less_eq)
  then have "k \<le> P - 1" by simp
  then have "(of_int k :: real) \<le> of_int P - 1"
    by (metis of_int_le_iff of_int_diff of_int_1)
  then have "r \<le> (of_int P - 1) / of_int P"
    unfolding r using P(1) by (simp add: divide_right_mono)
  also have "\<dots> = 1 - 1 / of_int P"
    using P(1) by (simp add: diff_divide_distrib)
  finally show ?thesis unfolding P(2) .
qed

lemma fl_eval_tie_even:
  assumes "2 powi e \<le> x" and "x < 2 powi (e + 1)" and "- 1022 \<le> e"
    and "x / 2 powi (e - 52) = of_int n + 1 / 2" and "even n"
  shows "fl x = of_int n * 2 powi (e - 52)"
proof -
  have "0 < x" using assms(1) by (smt (verit) zero_less_power_int)
  then have "fl x = of_int (round_even (x / 2 powi (e - 52))) * 2 powi (e - 52)"
    using assms(1-3) by (intro fl_normal) simp_all
  moreover have "round_even (of_int n + 1 / 2) = n"
    using assms(5) by (simp add: round_even_def Let_def)
  ultimately show ?thesis by (simp add: assms(4))
qed

lemma fl_eval_tie_odd:
  assumes "2 powi e \<le> x" and "x < 2 powi (e + 1)" and "- 1022 \<le> e"
    and "x / 2 powi (e - 52) = of_int n + 1 / 2" and "odd n"
  shows "fl x = of_int (n + 1) * 2 powi (e - 52)"
proof -
  have "0 < x" using assms(1) by (smt (verit) zero_less_power_int)
  then have "fl x = of_int (round_even (x / 2 powi (e - 52))) * 2 powi (e - 52)"
    using assms(1-3) by (intro fl_normal) simp_all
  moreover have "round_even (of_int n + 1 / 2) = n + 1"
    using assms(5) by (simp add: round_even_def Let_def)
  ultimately show ?thesis by (simp add: assms(4))
qed

lemma fl_0_85: "fl (0.85) = 7656119366529843 / 2 ^ 53"
  using fl_eval [of "- 1" "0.85" 7656119366529843] by (simp add: power_int_minus)

lemma fl_0_10: "fl (0.10) = 7205759403792794 / 2 ^ 56"
  using fl_eval [of "- 4" "0.10" 7205759403792794] by (simp add: power_int_minus)

lemma fl_0_95: "fl (0.95) = 8556839292003942 / 2 ^ 53"
  using fl_eval [of "- 1" "0.95" 8556839292003942] by (simp add: power_int_minus)

lemma fl_0_03: "fl (0.03) = 8646911284551352 / 2 ^ 58"
  using fl_eval [of "- 6" "0.03" 8646911284551352] by (simp add: power_int_minus)

lemma fl_0_05: "fl (0.05) = 7205759403792794 / 2 ^ 57"
  using fl_eval [of "- 5" "0.05" 7205759403792794] by (simp add: power_int_minus)

lemma fl_0_08: "fl (0.08) = 5764607523034235 / 2 ^ 56"
  using fl_eval [of "- 4" "0.08" 5764607523034235] by (simp add: power_int_minus)

lemma fl_0_01: "fl (0.01) = 5764607523034235 / 2 ^ 59"
  using fl_eval [of "- 7" "0.01" 5764607523034235] by (simp add: power_int_minus)

lemma fl_0_02: "fl (0.02) = 5764607523034235 / 2 ^ 58"
  using fl_eval [of "- 6" "0.02" 5764607523034235] by (simp add: power_int_minus)

lemma fl_double_0_85: "fl (7656119366529843 / 2 ^ 53) = 7656119366529843 / 2 ^ 53"
  using fl_eval [of "- 1" "7656119366529843 / 2 ^ 53" 7656119366529843] by (simp add: power_int_minus)

lemma fl_double_0_10: "fl (7205759403792794 / 2 ^ 56) = 7205759403792794 / 2 ^ 56"
  using fl_eval [of "- 4" "7205759403792794 / 2 ^ 56" 7205759403792794] by (simp add: power_int_minus)

lemma fl_double_0_03: "fl (8646911284551352 / 2 ^ 58) = 8646911284551352 / 2 ^ 58"
  using fl_eval [of "- 6" "8646911284551352 / 2 ^ 58" 8646911284551352] by (simp add: power_int_minus)

lemma fl_double_0_05: "fl (7205759403792794 / 2 ^ 57) = 7205759403792794 / 2 ^ 57"
  using fl_eval [of "- 5" "7205759403792794 / 2 ^ 57" 7205759403792794] by (simp add: power_int_minus)

lemma fl_double_0_01: "fl (5764607523034235 / 2 ^ 59) = 5764607523034235 / 2 ^ 59"
  using fl_eval [of "- 7" "5764607523034235 / 2 ^ 59" 5764607523034235] by (simp add: power_int_minus)

lemma fl_double_0_02: "fl (5764607523034235 / 2 ^ 58) = 5764607523034235 / 2 ^ 58"
  using fl_eval [of "- 6" "5764607523034235 / 2 ^ 58" 5764607523034235] by (simp add: power_int_minus)

lemma fl_sum_0_85_0_10: "fl (7656119366529843 / 2 ^ 53 + 7205759403792794 / 2 ^ 56) = 8556839292003942 / 2 ^ 53"
  using fl_eval [of "- 1" "7656119366529843 / 2 ^ 53 + 7205759403792794 / 2 ^ 56" 8556839292003942] by (simp add: power_int_minus)

lemma fl_sum_0_03_0_05: "fl (8646911284551352 / 2 ^ 58 + 7205759403792794 / 2 ^ 57) = 5764607523034235 / 2 ^ 56"
  using fl_eval [of "- 4" "8646911284551352 / 2 ^ 58 + 7205759403792794 / 2 ^ 57" 5764607523034235] by (simp add: power_int_minus)

lemma fl_sum_0_01_0_02: "fl (5764607523034235 / 2 ^ 59 + 5764607523034235 / 2 ^ 58) = 8646911284551352 / 2 ^ 58"
  using fl_eval_tie_even [of "- 6" "5764607523034235 / 2 ^ 59 + 5764607523034235 / 2 ^ 58" 8646911284551352] by (simp add: power_int_minus)

lemma fl_largest_index: "fl ((1 - 1 / 2 ^ 53) * 20) = 5629499534213119 / 2 ^ 48"
  using fl_eval [of "4" "(1 - 1 / 2 ^ 53) * 20" 5629499534213119] by (simp add: power_int_minus)

lemma fl_largest_draw: "fl (1 - 1 / 2 ^ 52) = 9007199254740990 / 2 ^ 53"
  using fl_eval [of "- 1" "1 - 1 / 2 ^ 52" 9007199254740990] by (simp add: power_int_minus)

lemma fl_prod_cex: "fl ((1 - 1 / 2 ^ 52) * (5764607523034235 / 2 ^ 58)) = 5764607523034234 / 2 ^ 58"
  using fl_eval [of "- 6" "(1 - 1 / 2 ^ 52) * (5764607523034235 / 2 ^ 58)" 5764607523034234] by (simp add: power_int_minus)

lemma fl_sum_cex: "fl (5764607523034235 / 2 ^ 59 + 5764607523034234 / 2 ^ 58) = 8646911284551352 / 2 ^ 58"
  using fl_eval_tie_odd [of "- 6" "5764607523034235 / 2 ^ 59 + 5764607523034234 / 2 ^ 58" 8646911284551351] by (simp add: power_int_minus)

lemma fl_half: "fl (1 / 2) = 1 / 2"
  using fl_eval [of "- 1" "1 / 2" "2 ^ 52"] by (simp add: power_int_minus)

lemma fl_ten: "fl 10 = 10"
  using fl_eval [of 3 10 "5 * 2 ^ 50"] by (simp add: power_int_minus)

section \<open>Properties of the classifier stand-in\<close>

lemma length_SPECIES_NAMES: "length SPECIES_NAMES = 20"
  by (simp add: SPECIES_NAMES_def)

lemma randomIndex_in_range:
  assumes "random_ok r0"
  shows "nat \<lfloor>fl (r0 * 20)\<rfloor> < 20"
proof -
  from assms have r: "0 \<le> r0" "r0 \<le> 1 - 1 / 2 ^ 53"
    using double_below_one [of r0] by (simp_all add: random_ok_def)
  then have "0 \<le> r0 * 20" "r0 * 20 \<le> (1 - 1 / 2 ^ 53) * 20"
    by simp_all
  then have "fl (r0 * 20) \<le> fl ((1 - 1 / 2 ^ 53) * 20)"
    by (rule fl_mono)
  also have "\<dots> < 20"
    unfolding fl_largest_index by simp
  finally have "\<lfloor>fl (r0 * 20)\<rfloor> < 20"
    by (simp add: floor_less_iff)
  then show ?thesis by linarith
qed

text \<open>One confidence: a double constant plus a draw scaled by a double constant.\<close>

lemma draw_bounds:
  assumes "0 \<le> r" and "r < 1" and "fl lo = lo" and "fl width = width"
    and "0 \<le> lo" and "0 \<le> width"
  shows "lo \<le> fl (lo + fl (r * width)) \<and> fl (lo + fl (r * width)) \<le> fl (lo + width)"
proof -
  have "0 \<le> r * width" "r * width \<le> width"
    using assms by (simp_all add: mult_left_le_one_le)
  then have "fl 0 \<le> fl (r * width)" "fl (r * width) \<le> fl width"
    by (simp_all add: fl_mono)
  then have t: "0 \<le> fl (r * width)" "fl (r * width) \<le> width"
    by (simp_all add: fl_zero assms(4))
  have "fl lo \<le> fl (lo + fl (r * width))"
    using assms(5) t(1) by (intro fl_mono) simp_all
  moreover have "fl (lo + fl (r * width)) \<le> fl (lo + width)"
    using assms(5) t by (intro fl_mono) simp_all
  ultimately show ?thesis by (simp add: assms(3))
qed

lemma confidence1_bounds:
  assumes "random_ok r"
  shows "fl 0.85 \<le> fl (fl 0.85 + fl (r * fl 0.10))
       \<and> fl (fl 0.85 + fl (r * fl 0.10)) \<le> fl 0.95"
proof -
  have "fl (fl 0.85) = fl 0.85" "fl (fl 0.10) = fl 0.10" "fl (fl 0.85 + fl 0.10) = fl 0.95"
    "0 \<le> fl 0.85" "0 \<le> fl 0.10"
    unfolding fl_0_85 fl_0_10 fl_0_95 fl_double_0_85 fl_double_0_10 fl_sum_0_85_0_10
    by simp_all
  with draw_bounds [of r "fl 0.85" "fl 0.10"] assms show ?thesis
    by (simp only: random_ok_def)
qed

lemma confidence2_bounds:
  assumes "random_ok r"
  shows "fl 0.03 \<le> fl (fl 0.03 + fl (r * fl 0.05))
       \<and> fl (fl 0.03 + fl (r * fl 0.05)) \<le> fl 0.08"
proof -
  have "fl (fl 0.03) = fl 0.03" "fl (fl 0.05) = fl 0.05" "fl (fl 0.03 + fl 0.05) = fl 0.08"
    "0 \<le> fl 0.03" "0 \<le> fl 0.05"
    unfolding fl_0_03 fl_0_05 fl_0_08 fl_double_0_03 fl_double_0_05 fl_sum_0_03_0_05
    by simp_all
  with draw_bounds [of r "fl 0.03" "fl 0.05"] assms show ?thesis
    by (simp only: random_ok_def)
qed

lemma confidence3_bounds:
  assumes "random_ok r"
  shows "fl 0.01 \<le> fl (fl 0.01 + fl (r * fl 0.02))
       \<and> fl (fl 0.01 + fl (r * fl 0.02)) \<le> fl 0.03"
proof -
  have "fl (fl 0.01) = fl 0.01" "fl (fl 0.02) = fl 0.02" "fl (fl 0.01 + fl 0.02) = fl 0.03"
    "0 \<le> fl 0.01" "0 \<le> fl 0.02"
    unfolding fl_0_01 fl_0_02 fl_0_03 fl_double_0_01 fl_double_0_02 fl_sum_0_01_0_02
    by simp_all
  with draw_bounds [of r "fl 0.01" "fl 0.02"] assms show ?thesis
    by (simp only: random_ok_def)
qed

lemma band_order: "0 \<le> fl 0.01" "fl 0.08 < fl 0.85" "fl 0.95 \<le> 1"
  unfolding fl_0_01 fl_0_08 fl_0_85 fl_0_95 by simp_all

lemma simulateInference_confidences:
  "map confidence (simulateInference r0 r1 r2 r3) =
     [fl (fl 0.85 + fl (r1 * fl 0.10)),
      fl (fl 0.03 + fl (r2 * fl 0.05)),
      fl (fl 0.01 + fl (r3 * fl 0.02))]"
  by (simp add: simulateInference_def Let_def)

lemma random_ok_half: "random_ok (1 / 2)"
  by (simp add: random_ok_def fl_half)

lemma random_ok_zero: "random_ok 0"
  by (simp add: random_ok_def fl_zero)

lemma random_ok_largest: "random_ok (1 - 1 / 2 ^ 52)"
proof -
  have "fl (1 - 1 / 2 ^ 52) = 1 - 1 / 2 ^ 52"
    unfolding fl_largest_draw by simp
  then show ?thesis by (simp add: random_ok_def)
qed

lemma confidence1_at_zero: "fl (fl 0.85 + fl (0 * fl 0.10)) = fl 0.85"
proof -
  have "fl (fl 0.85 + fl (0 * fl 0.10)) = fl (fl 0.85)" by (simp add: fl_zero)
  also have "\<dots> = fl 0.85" unfolding fl_0_85 fl_double_0_85 ..
  finally show ?thesis .
qed

lemma confidence2_at_zero: "fl (fl 0.03 + fl (0 * fl 0.05)) = fl 0.03"
proof -
  have "fl (fl 0.03 + fl (0 * fl 0.05)) = fl (fl 0.03)" by (simp add: fl_zero)
  also have "\<dots> = fl 0.03" unfolding fl_0_03 fl_double_0_03 ..
  finally show ?thesis .
qed

lemma confidence3_at_largest: "fl (fl 0.01 + fl ((1 - 1 / 2 ^ 52) * fl 0.02)) = fl 0.03"
  unfolding fl_0_01 fl_0_02 fl_0_03 fl_prod_cex fl_sum_cex ..

text \<open>
  C1, as the code has it. Whatever doubles \<^verbatim>\<open>Math.random\<close> returns,
  \<^verbatim>\<open>simulateInference\<close> returns exactly three predictions (so between 1 and K = 3), in
  non-increasing order of confidence: the first is strictly the largest, the third is at
  most the second. All confidences are in \<open>[0, 1]\<close>: the first between the doubles
  \<^verbatim>\<open>0.85\<close> and \<^verbatim>\<open>0.95\<close>, the second between \<^verbatim>\<open>0.03\<close> and \<^verbatim>\<open>0.08\<close>, the third between
  \<^verbatim>\<open>0.01\<close> and \<^verbatim>\<open>0.03\<close>, so that both secondary bands are strictly below the dominant
  one and meet each other at \<^verbatim>\<open>0.03\<close>. The labels are the entries \<open>i\<close>, \<open>i + 1\<close> and
  \<open>i + 2\<close> of the label list, counted cyclically, for an index \<open>i\<close> below 20.
\<close>

theorem simulateInference_ranked:
  assumes "random_ok r0" and "random_ok r1" and "random_ok r2" and "random_ok r3"
  shows "\<exists>p1 p2 p3 i.
           simulateInference r0 r1 r2 r3 = [p1, p2, p3]
         \<and> 1 \<le> length (simulateInference r0 r1 r2 r3)
         \<and> length (simulateInference r0 r1 r2 r3) \<le> 3
         \<and> confidence p2 < confidence p1 \<and> confidence p3 \<le> confidence p2
         \<and> fl 0.85 \<le> confidence p1 \<and> confidence p1 \<le> fl 0.95
         \<and> fl 0.03 \<le> confidence p2 \<and> confidence p2 \<le> fl 0.08
         \<and> fl 0.01 \<le> confidence p3 \<and> confidence p3 \<le> fl 0.03
         \<and> (\<forall>p \<in> set (simulateInference r0 r1 r2 r3). 0 \<le> confidence p \<and> confidence p \<le> 1)
         \<and> i < length SPECIES_NAMES
         \<and> species p1 = SPECIES_NAMES ! i
         \<and> species p2 = SPECIES_NAMES ! ((i + 1) mod length SPECIES_NAMES)
         \<and> species p3 = SPECIES_NAMES ! ((i + 2) mod length SPECIES_NAMES)"
proof -
  define i where "i = nat \<lfloor>fl (r0 * 20)\<rfloor>"
  define p1 where
    "p1 = \<lparr>species = SPECIES_NAMES ! i, confidence = fl (fl 0.85 + fl (r1 * fl 0.10))\<rparr>"
  define p2 where
    "p2 = \<lparr>species = SPECIES_NAMES ! ((i + 1) mod 20),
           confidence = fl (fl 0.03 + fl (r2 * fl 0.05))\<rparr>"
  define p3 where
    "p3 = \<lparr>species = SPECIES_NAMES ! ((i + 2) mod 20),
           confidence = fl (fl 0.01 + fl (r3 * fl 0.02))\<rparr>"
  have eq: "simulateInference r0 r1 r2 r3 = [p1, p2, p3]"
    by (simp add: simulateInference_def Let_def length_SPECIES_NAMES i_def p1_def p2_def p3_def)
  have i: "i < length SPECIES_NAMES"
    using randomIndex_in_range [OF assms(1)] by (simp add: i_def length_SPECIES_NAMES)
  have c1: "fl 0.85 \<le> confidence p1" "confidence p1 \<le> fl 0.95"
    using confidence1_bounds [OF assms(2)] by (simp_all add: p1_def)
  have c2: "fl 0.03 \<le> confidence p2" "confidence p2 \<le> fl 0.08"
    using confidence2_bounds [OF assms(3)] by (simp_all add: p2_def)
  have c3: "fl 0.01 \<le> confidence p3" "confidence p3 \<le> fl 0.03"
    using confidence3_bounds [OF assms(4)] by (simp_all add: p3_def)
  have ord: "confidence p2 < confidence p1" "confidence p3 \<le> confidence p2"
    using c1 c2 c3 band_order by linarith+
  have bounds: "\<forall>p \<in> set [p1, p2, p3]. 0 \<le> confidence p \<and> confidence p \<le> 1"
    using c1 c2 c3 ord band_order by simp
  have labels: "species p1 = SPECIES_NAMES ! i"
    "species p2 = SPECIES_NAMES ! ((i + 1) mod length SPECIES_NAMES)"
    "species p3 = SPECIES_NAMES ! ((i + 2) mod length SPECIES_NAMES)"
    by (simp_all add: p1_def p2_def p3_def length_SPECIES_NAMES)
  show ?thesis
    unfolding eq using c1 c2 c3 ord bounds i labels
    by (intro exI [of _ p1] exI [of _ p2] exI [of _ p3] exI [of _ i]) simp
qed

theorem simulateInference_ranked_witness:
  "random_ok (1 / 2)
   \<and> (\<exists>p1 p2 p3 i.
           simulateInference (1 / 2) (1 / 2) (1 / 2) (1 / 2) = [p1, p2, p3]
         \<and> confidence p2 < confidence p1 \<and> confidence p3 \<le> confidence p2
         \<and> fl 0.85 \<le> confidence p1 \<and> confidence p1 \<le> fl 0.95
         \<and> fl 0.03 \<le> confidence p2 \<and> confidence p2 \<le> fl 0.08
         \<and> fl 0.01 \<le> confidence p3 \<and> confidence p3 \<le> fl 0.03
         \<and> i < length SPECIES_NAMES
         \<and> species p1 = SPECIES_NAMES ! i
         \<and> species p2 = SPECIES_NAMES ! ((i + 1) mod length SPECIES_NAMES)
         \<and> species p3 = SPECIES_NAMES ! ((i + 2) mod length SPECIES_NAMES))"
  using random_ok_half
    simulateInference_ranked [OF random_ok_half random_ok_half random_ok_half random_ok_half]
  by blast

text \<open>
  C1 as stated fails: the two secondary bands overlap. With the draws 0 for the second
  confidence and \<open>1 - 1 / 2 ^ 52\<close> for the third, both are the double \<^verbatim>\<open>0.03\<close>, since
  \<^verbatim>\<open>0.01 + 0.9999999999999998 * 0.02\<close> rounds to \<^verbatim>\<open>0.03\<close>: the third prediction is not
  strictly below the second.
\<close>

theorem simulateInference_equal_secondaries:
  "random_ok 0 \<and> random_ok (1 - 1 / 2 ^ 52)
   \<and> map confidence (simulateInference 0 0 0 (1 - 1 / 2 ^ 52)) = [fl 0.85, fl 0.03, fl 0.03]
   \<and> \<not> confidence (simulateInference 0 0 0 (1 - 1 / 2 ^ 52) ! 2)
         < confidence (simulateInference 0 0 0 (1 - 1 / 2 ^ 52) ! 1)"
proof -
  have m: "map confidence (simulateInference 0 0 0 (1 - 1 / 2 ^ 52))
      = [fl 0.85, fl 0.03, fl 0.03]"
    by (simp only: simulateInference_confidences confidence1_at_zero confidence2_at_zero
        confidence3_at_largest)
  have l: "length (simulateInference 0 0 0 (1 - 1 / 2 ^ 52)) = 3"
    by (simp add: simulateInference_def Let_def)
  have "confidence (simulateInference 0 0 0 (1 - 1 / 2 ^ 52) ! 2)
      = map confidence (simulateInference 0 0 0 (1 - 1 / 2 ^ 52)) ! 2"
    "confidence (simulateInference 0 0 0 (1 - 1 / 2 ^ 52) ! 1)
      = map confidence (simulateInference 0 0 0 (1 - 1 / 2 ^ 52)) ! 1"
    using l by simp_all
  then have "confidence (simulateInference 0 0 0 (1 - 1 / 2 ^ 52) ! 2) = fl 0.03"
    "confidence (simulateInference 0 0 0 (1 - 1 / 2 ^ 52) ! 1) = fl 0.03"
    unfolding m by simp_all
  with m random_ok_zero random_ok_largest show ?thesis by simp
qed

section \<open>Properties of the store\<close>

lemma fold_max_ge: "a \<le> fold max xs (a::nat)"
  by (induction xs arbitrary: a) (auto intro: order_trans [OF max.cobounded2])

lemma fold_max_mem: "x \<in> set xs \<Longrightarrow> x \<le> fold max xs (a::nat)"
proof (induction xs arbitrary: a)
  case Nil
  then show ?case by simp
next
  case (Cons y ys)
  show ?case
  proof (cases "x = y")
    case True
    have "max y a \<le> fold max ys (max y a)" by (rule fold_max_ge)
    with True show ?thesis by simp
  next
    case False
    with Cons show ?thesis by simp
  qed
qed

lemma next_id_fresh: "r \<in> set (rows d) \<Longrightarrow> h_id r < next_id d"
  using fold_max_mem [of "h_id r" "map h_id (rows d)" 0]
  by (simp add: next_id_def less_Suc_eq_le max.coboundedI2)

lemma next_id_after_insert:
  "runSync_insert True clock sp c d = Inr d' \<Longrightarrow> next_id d' = Suc (next_id d)"
  by (auto simp: runSync_insert_def next_id_def split: if_splits)

lemma foldr_insort_front:
  "\<forall>y \<in> set xs. f x < f y \<Longrightarrow>
     foldr (insort_key f) xs (x # zs) = x # foldr (insort_key f) xs zs"
  by (induction xs) auto

lemma sort_key_snoc_least:
  "\<forall>y \<in> set xs. f x < f y \<Longrightarrow> sort_key f (xs @ [x]) = x # sort_key f xs"
  by (simp add: sort_key_def foldr_insort_front)

lemma order_by_timestamp_desc_sorted:
  "sorted_wrt (\<lambda>a b. h_timestamp a \<ge> h_timestamp b) (order_by_timestamp_desc rs)"
proof -
  have "sorted (map (\<lambda>r. - int (h_timestamp r)) (order_by_timestamp_desc rs))"
    unfolding order_by_timestamp_desc_def by (rule sorted_sort_key)
  then show ?thesis by (simp add: sorted_map)
qed

lemma order_by_timestamp_desc_newest:
  assumes "\<forall>r \<in> set rs. h_timestamp r < h_timestamp x"
  shows "order_by_timestamp_desc (rs @ [x]) = x # order_by_timestamp_desc rs"
  unfolding order_by_timestamp_desc_def
  by (rule sort_key_snoc_least) (use assms in simp)

lemma set_order_by_timestamp_desc: "set (order_by_timestamp_desc rs) = set rs"
  by (simp add: order_by_timestamp_desc_def)

lemma length_order_by_timestamp_desc: "length (order_by_timestamp_desc rs) = length rs"
  by (simp add: order_by_timestamp_desc_def)

text \<open>
  C2, as the code has it. When the table exists and the \<^verbatim>\<open>SELECT\<close> succeeds,
  \<^verbatim>\<open>loadHistory\<close> holds the first \<open>min 20 n\<close> of the \<open>n\<close> stored records put in
  descending order of timestamp (no order is promised among equal timestamps): followed
  by the records it leaves out, the history is a rearrangement of the table in
  descending order of timestamp. A successful \<^verbatim>\<open>savePrediction\<close> at a clock strictly
  later than every stored timestamp leaves the new record, with the saved label and
  confidence, at the head of the history.
\<close>

theorem loadHistory_newest_first:
  assumes "table_exists (db s)"
  shows "length (history (loadHistory True s)) = min 20 (length (rows (db s)))
       \<and> (\<exists>left_out.
             mset (history (loadHistory True s) @ left_out) = mset (rows (db s))
           \<and> sorted_wrt (\<lambda>a b. h_timestamp a \<ge> h_timestamp b)
                 (history (loadHistory True s) @ left_out))
       \<and> ((\<forall>r \<in> set (rows (db s)). h_timestamp r < clock) \<longrightarrow>
            (\<exists>older. history (snd (savePrediction True True clock sp c s)) =
               \<lparr>h_id = next_id (db s), h_species = sp, h_confidence = c,
                h_timestamp = clock\<rparr> # older))"
proof -
  have h: "history (loadHistory True s) = take 20 (order_by_timestamp_desc (rows (db s)))"
    using assms by (simp add: loadHistory_def getAllSync_recent_def)
  have len: "length (history (loadHistory True s)) = min 20 (length (rows (db s)))"
    by (simp add: h length_order_by_timestamp_desc min.commute)
  have all: "history (loadHistory True s) @ drop 20 (order_by_timestamp_desc (rows (db s)))
      = order_by_timestamp_desc (rows (db s))"
    by (simp add: h)
  have srt: "\<exists>left_out.
             mset (history (loadHistory True s) @ left_out) = mset (rows (db s))
           \<and> sorted_wrt (\<lambda>a b. h_timestamp a \<ge> h_timestamp b)
                 (history (loadHistory True s) @ left_out)"
  proof (intro exI conjI)
    show "mset (history (loadHistory True s) @ drop 20 (order_by_timestamp_desc (rows (db s))))
        = mset (rows (db s))"
      unfolding all by (simp add: order_by_timestamp_desc_def)
    show "sorted_wrt (\<lambda>a b. h_timestamp a \<ge> h_timestamp b)
        (history (loadHistory True s) @ drop 20 (order_by_timestamp_desc (rows (db s))))"
      unfolding all by (rule order_by_timestamp_desc_sorted)
  qed
  have hd: "\<exists>older. history (snd (savePrediction True True clock sp c s)) =
               \<lparr>h_id = next_id (db s), h_species = sp, h_confidence = c,
                h_timestamp = clock\<rparr> # older"
    if "\<forall>r \<in> set (rows (db s)). h_timestamp r < clock"
  proof -
    let ?x = "\<lparr>h_id = next_id (db s), h_species = sp, h_confidence = c, h_timestamp = clock\<rparr>"
    have "order_by_timestamp_desc (rows (db s) @ [?x]) = ?x # order_by_timestamp_desc (rows (db s))"
      by (rule order_by_timestamp_desc_newest) (use that in simp)
    then have "history (snd (savePrediction True True clock sp c s)) =
                 ?x # take 19 (order_by_timestamp_desc (rows (db s)))"
      using assms
      by (simp add: savePrediction_def runSync_insert_def loadHistory_def
          getAllSync_recent_def console_log_def take_Cons')
    then show ?thesis by blast
  qed
  from len srt hd show ?thesis by blast
qed

theorem loadHistory_newest_first_witness:
  "table_exists (db two_appends_same_second)
   \<and> length (history (loadHistory True two_appends_same_second)) = 2
   \<and> list_all (\<lambda>r. h_timestamp r < 101) (rows (db two_appends_same_second))
   \<and> (\<exists>older. history (snd (savePrediction True True 101 ''Species_7'' 0.9
                  two_appends_same_second)) =
        \<lparr>h_id = 3, h_species = ''Species_7'', h_confidence = 0.9, h_timestamp = 101\<rparr> # older)"
proof -
  have d: "db two_appends_same_second =
      \<lparr>table_exists = True,
       rows = [\<lparr>h_id = 1, h_species = ''Species_4'', h_confidence = 0.91, h_timestamp = 100\<rparr>,
               \<lparr>h_id = 2, h_species = ''Species_9'', h_confidence = 0.88, h_timestamp = 100\<rparr>],
       seq = 2\<rparr>"
    by (simp add: two_appends_same_second_def savePrediction_def runSync_insert_def
      loadHistory_def getAllSync_recent_def order_by_timestamp_desc_def console_log_def
      initial_app_def empty_db_def next_id_def)
  have t: "table_exists (db two_appends_same_second)" by (simp add: d)
  have n: "next_id (db two_appends_same_second) = 3" by (simp add: d next_id_def)
  show ?thesis
    using loadHistory_newest_first [OF t, of 101 "''Species_7''" "0.9"]
    by (simp add: d next_id_def numeral_3_eq_3)
qed

text \<open>
  C2 as stated fails: the query sorts by timestamp only. Two records saved within the
  same second come back in ascending order of id, and the record saved last is not at
  the head.
\<close>

theorem two_appends_same_second_order:
  "map h_species (history two_appends_same_second) = [''Species_4'', ''Species_9'']
   \<and> map h_id (history two_appends_same_second) = [1, 2]
   \<and> map h_timestamp (history two_appends_same_second) = [100, 100]
   \<and> h_species (hd (history two_appends_same_second)) \<noteq> ''Species_9''"
  by (simp add: two_appends_same_second_def savePrediction_def runSync_insert_def
      loadHistory_def getAllSync_recent_def order_by_timestamp_desc_def console_log_def
      initial_app_def empty_db_def next_id_def)

text \<open>
  C3, as the code has it. \<^verbatim>\<open>savePrediction\<close> always completes normally. When the
  \<^verbatim>\<open>INSERT\<close> fails it only writes \<^verbatim>\<open>Save error:\<close> to the console and leaves the rest
  of the state (store, history, dialogs) as it was. When the \<^verbatim>\<open>INSERT\<close> succeeds, the new
  row is appended with the given label and confidence and the current clock, its id is
  larger than every stored id, and the next id is the new one plus one.
\<close>

theorem savePrediction_completes:
  "fst (savePrediction insert_ok select_ok clock sp c s) = Normal
   \<and> (\<not> (insert_ok \<and> table_exists (db s)) \<longrightarrow>
        snd (savePrediction insert_ok select_ok clock sp c s) = console_error ''Save error:'' s)
   \<and> (insert_ok \<and> table_exists (db s) \<longrightarrow>
        rows (db (snd (savePrediction insert_ok select_ok clock sp c s))) =
          rows (db s) @ [\<lparr>h_id = next_id (db s), h_species = sp, h_confidence = c,
                          h_timestamp = clock\<rparr>]
        \<and> (\<forall>r \<in> set (rows (db s)). h_id r < next_id (db s))
        \<and> next_id (db (snd (savePrediction insert_ok select_ok clock sp c s)))
            = Suc (next_id (db s)))"
proof -
  have a: "fst (savePrediction insert_ok select_ok clock sp c s) = Normal"
    by (simp add: savePrediction_def split: sum.splits)
  have b: "snd (savePrediction insert_ok select_ok clock sp c s) = console_error ''Save error:'' s"
    if "\<not> (insert_ok \<and> table_exists (db s))"
    using that by (auto simp: savePrediction_def runSync_insert_def)
  have dbeq: "db (snd (savePrediction insert_ok select_ok clock sp c s)) =
      (db s)\<lparr>rows := rows (db s) @ [\<lparr>h_id = next_id (db s), h_species = sp, h_confidence = c,
                          h_timestamp = clock\<rparr>], seq := next_id (db s)\<rparr>"
    if "insert_ok \<and> table_exists (db s)"
    using that by (simp add: savePrediction_def runSync_insert_def loadHistory_def
        console_log_def console_error_def split: sum.splits)
  have c1: "rows (db (snd (savePrediction insert_ok select_ok clock sp c s))) =
          rows (db s) @ [\<lparr>h_id = next_id (db s), h_species = sp, h_confidence = c,
                          h_timestamp = clock\<rparr>]"
    if "insert_ok \<and> table_exists (db s)"
    by (simp add: dbeq [OF that])
  have c2: "\<forall>r \<in> set (rows (db s)). h_id r < next_id (db s)"
    by (simp add: next_id_fresh)
  have c3: "next_id (db (snd (savePrediction insert_ok select_ok clock sp c s)))
            = Suc (next_id (db s))"
    if "insert_ok \<and> table_exists (db s)"
  proof -
    from that have "runSync_insert True clock sp c (db s) =
       Inr (db (snd (savePrediction insert_ok select_ok clock sp c s)))"
      using that dbeq [OF that] by (simp add: runSync_insert_def)
    then show ?thesis by (rule next_id_after_insert)
  qed
  from a b c1 c2 c3 show ?thesis by blast
qed

theorem savePrediction_completes_witness:
  "fst (savePrediction True True 100 ''Species_4'' 0.91 (initial_app empty_db)) = Normal
   \<and> snd (savePrediction False True 100 ''Species_4'' 0.91 (initial_app empty_db))
       = console_error ''Save error:'' (initial_app empty_db)
   \<and> rows (db (snd (savePrediction True True 100 ''Species_4'' 0.91 (initial_app empty_db))))
       = [\<lparr>h_id = 1, h_species = ''Species_4'', h_confidence = 0.91, h_timestamp = 100\<rparr>]
   \<and> next_id (db (snd (savePrediction True True 100 ''Species_4'' 0.91 (initial_app empty_db))))
       = 2"
proof -
  have t: "table_exists (db (initial_app empty_db))" "rows (db (initial_app empty_db)) = []"
    "next_id (db (initial_app empty_db)) = 1"
    by (simp_all add: initial_app_def empty_db_def next_id_def)
  show ?thesis
    using savePrediction_completes [of True True 100 "''Species_4''" "0.91" "initial_app empty_db"]
      savePrediction_completes [of False True 100 "''Species_4''" "0.91" "initial_app empty_db"]
    by (simp add: t)
qed

text \<open>
  C3 as stated fails: with a failing \<^verbatim>\<open>INSERT\<close>, \<^verbatim>\<open>savePrediction\<close> does not throw; it
  completes normally, nothing is stored and no dialog is shown.
\<close>

theorem savePrediction_silent_failure:
  "fst (savePrediction False True 100 ''Species_4'' 0.91 (initial_app empty_db)) = Normal
   \<and> fst (savePrediction False True 100 ''Species_4'' 0.91 (initial_app empty_db))
       \<noteq> Throws StorageError
   \<and> rows (db (snd (savePrediction False True 100 ''Species_4'' 0.91 (initial_app empty_db)))) = []
   \<and> alerts (snd (savePrediction False True 100 ''Species_4'' 0.91 (initial_app empty_db))) = []"
  by (simp add: savePrediction_def runSync_insert_def console_error_def initial_app_def
      empty_db_def)

section \<open>Concrete values\<close>

lemma ready_app_eq:
  "ready_app =
     \<lparr>permission = Some True, model = True, predictions = None, isLoading = False,
      activeTab = TabCamera, history = [], capturedImage = None, db = empty_db, alerts = [],
      console = [LOG ''Database initialized'', LOG ''Loading TFLite model...'',
                 LOG ''Model loaded''],
      clear_dialog = False, inflight_capture = 0, inflight_pick = 0\<rparr>"
  by (simp add: ready_app_def initializeApp_def initDatabase_def loadModel_def
      execSync_create_def console_log_def initial_app_def empty_db_def Let_def)

lemma simulateInference_half:
  "simulateInference (1 / 2) (1 / 2) (1 / 2) (1 / 2) =
     [\<lparr>species = ''Species_11'', confidence = fl (fl 0.85 + fl (1 / 2 * fl 0.10))\<rparr>,
      \<lparr>species = ''Species_12'', confidence = fl (fl 0.03 + fl (1 / 2 * fl 0.05))\<rparr>,
      \<lparr>species = ''Species_13'', confidence = fl (fl 0.01 + fl (1 / 2 * fl 0.02))\<rparr>]"
  by (simp add: simulateInference_def SPECIES_NAMES_def Let_def fl_ten)

section \<open>Clearing the history\<close>



section \<open>Creating the schema\<close>

text \<open>
  C9. \<^verbatim>\<open>initDatabase\<close> is idempotent. When the table exists the statement
  \<^verbatim>\<open>CREATE TABLE IF NOT EXISTS\<close> succeeds without changing the store, and
  \<^verbatim>\<open>initDatabase\<close> leaves the store as it is; calling \<^verbatim>\<open>initDatabase\<close> twice gives the
  same store, and the same answer to the history query, as calling it once; it never
  raises and shows no dialog.
\<close>

theorem initDatabase_idempotent:
  "(table_exists (db s) \<longrightarrow>
      execSync_create True (db s) = Inr (db s) \<and> db (initDatabase ok s) = db s)
   \<and> db (initDatabase ok (initDatabase ok s)) = db (initDatabase ok s)
   \<and> db (initDatabase ok' (initDatabase True s)) = db (initDatabase True s)
   \<and> getAllSync_recent select_ok (db (initDatabase True (initDatabase True s)))
       = getAllSync_recent select_ok (db (initDatabase True s))
   \<and> alerts (initDatabase ok s) = alerts s"
proof -
  have noop: "execSync_create True (db s) = Inr (db s) \<and> db (initDatabase ok s) = db s"
    if "table_exists (db s)"
    using that
    by (simp add: initDatabase_def execSync_create_def console_log_def console_error_def)
  have ex: "table_exists (db (initDatabase True s))"
    by (simp add: initDatabase_def execSync_create_def console_log_def)
  have twice: "db (initDatabase ok (initDatabase ok s)) = db (initDatabase ok s)"
    by (cases ok)
      (simp_all add: initDatabase_def execSync_create_def console_log_def console_error_def)
  have after: "db (initDatabase b (initDatabase True s)) = db (initDatabase True s)" for b
    using ex
    by (simp add: initDatabase_def [of b] execSync_create_def console_log_def
        console_error_def)
  have al: "alerts (initDatabase ok s) = alerts s"
    by (simp add: initDatabase_def console_log_def console_error_def split: sum.splits)
  from noop twice after [of ok'] after [of True] al show ?thesis by simp
qed

theorem initDatabase_idempotent_witness:
  "table_exists (db two_appends_same_second)
   \<and> db (initDatabase True two_appends_same_second) = db two_appends_same_second
   \<and> db (initDatabase True (initDatabase True (initial_app no_db)))
       = db (initDatabase True (initial_app no_db))
   \<and> db (initDatabase True (initial_app no_db)) = empty_db"
proof -
  have d: "table_exists (db two_appends_same_second)"
    by (simp add: two_appends_same_second_def savePrediction_def runSync_insert_def
      loadHistory_def getAllSync_recent_def console_log_def initial_app_def empty_db_def)
  have e: "db (initDatabase True (initial_app no_db)) = empty_db"
    by (simp add: initDatabase_def execSync_create_def console_log_def initial_app_def
        no_db_def empty_db_def)
  show ?thesis
    using initDatabase_idempotent [of two_appends_same_second True True True]
      initDatabase_idempotent [of "initial_app no_db" True True True]
    by (simp add: d e)
qed

section \<open>Cancelling the gallery pick\<close>

text \<open>
  C10. When the user cancels the image picker, \<^verbatim>\<open>pickImage\<close> changes nothing: the
  continuation of \<^verbatim>\<open>pickImage\<close> returns the state it got, and pressing the gallery
  button and then cancelling leaves the whole state (store, history, predictions,
  captured image, loading flag, active tab) as it was.
\<close>

theorem pickImage_cancel_noop:
  "pickImage_resume (Inr \<lparr>canceled = True, assets = a\<rparr>) w s = s
   \<and> (render s = MainScreen \<and> activeTab s = TabCamera \<longrightarrow>
        step (PickSettled (Inr \<lparr>canceled = True, assets = a\<rparr>) w) (step PressGallery s) = s)"
  by (simp add: pickImage_resume_def pickImage_def)

theorem pickImage_cancel_noop_witness:
  "render ready_app = MainScreen \<and> activeTab ready_app = TabCamera
   \<and> step (PickSettled (Inr \<lparr>canceled = True, assets = []\<rparr>) io_ok) (step PressGallery ready_app)
       = ready_app"
proof -
  have r: "render ready_app = MainScreen" "activeTab ready_app = TabCamera"
    by (simp_all add: ready_app_eq render_def)
  show ?thesis
    using r pickImage_cancel_noop [of "[]" io_ok ready_app] by simp
qed

section \<open>A failing store during a run\<close>

text \<open>
  C7, as the code has it. When the classifier has answered and the \<^verbatim>\<open>INSERT\<close> of the
  top prediction fails, no failure is recorded in the state or shown: the failure is only
  written to the console, and the run ends as a successful one does, on the results tab
  with the predictions held and the loading flag cleared, whether the image came from the
  camera or from the gallery. The store and the visible history are unchanged and no
  dialog is shown.
\<close>

theorem append_failure_still_shows_result:
  assumes "inference w = Inr (p # ps)" and "\<not> (ins_ok w \<and> table_exists (db s))"
  shows "runSync_insert (ins_ok w) (now w) (species p) (confidence p) (db s) = Inl StorageError
       \<and> (uri \<noteq> [] \<longrightarrow>
             predictions (takePicture_resume (Inr (Some uri)) w s) = Some (p # ps)
           \<and> activeTab (takePicture_resume (Inr (Some uri)) w s) = TabResults
           \<and> isLoading (takePicture_resume (Inr (Some uri)) w s) = False
           \<and> db (takePicture_resume (Inr (Some uri)) w s) = db s
           \<and> history (takePicture_resume (Inr (Some uri)) w s) = history s
           \<and> alerts (takePicture_resume (Inr (Some uri)) w s) = alerts s
           \<and> console (takePicture_resume (Inr (Some uri)) w s)
               = console s @ [ERROR ''Save error:''])
       \<and> (\<not> canceled r \<and> assets r \<noteq> [] \<longrightarrow>
             predictions (pickImage_resume (Inr r) w s) = Some (p # ps)
           \<and> activeTab (pickImage_resume (Inr r) w s) = TabResults
           \<and> isLoading (pickImage_resume (Inr r) w s) = False
           \<and> db (pickImage_resume (Inr r) w s) = db s
           \<and> history (pickImage_resume (Inr r) w s) = history s
           \<and> alerts (pickImage_resume (Inr r) w s) = alerts s
           \<and> console (pickImage_resume (Inr r) w s) = console s @ [ERROR ''Save error:''])"
proof -
  have ins: "runSync_insert (ins_ok w) (now w) (species p) (confidence p) (db s)
      = Inl StorageError"
    using assms(2) by (auto simp: runSync_insert_def)
  have sv: "savePrediction (ins_ok w) (sel_ok w) (now w) (species p) (confidence p) s'
      = (Normal, console_error ''Save error:'' s')" if "db s' = db s" for s'
    using ins that by (simp add: savePrediction_def)
  have cam: "takePicture_resume (Inr (Some uri)) w s =
      (console_error ''Save error:'' (s\<lparr>capturedImage := Some uri,
          predictions := Some (p # ps)\<rparr>))\<lparr>activeTab := TabResults, isLoading := False\<rparr>"
    if "uri \<noteq> []"
    using that assms(1) by (simp add: takePicture_resume_def sv)
  have gal: "pickImage_resume (Inr r) w s =
      (console_error ''Save error:'' (s\<lparr>isLoading := True,
          capturedImage := Some (hd (assets r)),
          predictions := Some (p # ps)\<rparr>))\<lparr>activeTab := TabResults, isLoading := False\<rparr>"
    if "\<not> canceled r \<and> assets r \<noteq> []"
    using that assms(1) by (simp add: pickImage_resume_def sv)
  show ?thesis
    using ins by (auto simp: cam gal console_error_def)
qed

theorem append_failure_still_shows_result_witness:
  "inference io_insert_fails = Inr (simulateInference (1 / 2) (1 / 2) (1 / 2) (1 / 2))
   \<and> ins_ok io_insert_fails = False
   \<and> predictions (takePicture_resume (Inr (Some ''a.jpg'')) io_insert_fails ready_app)
       = Some (simulateInference (1 / 2) (1 / 2) (1 / 2) (1 / 2))
   \<and> activeTab (takePicture_resume (Inr (Some ''a.jpg'')) io_insert_fails ready_app)
       = TabResults
   \<and> rows (db (takePicture_resume (Inr (Some ''a.jpg'')) io_insert_fails ready_app)) = []
   \<and> predictions (pickImage_resume (Inr \<lparr>canceled = False, assets = [''a.jpg'']\<rparr>)
         io_insert_fails ready_app)
       = Some (simulateInference (1 / 2) (1 / 2) (1 / 2) (1 / 2))"
proof -
  have i: "inference io_insert_fails =
      Inr (\<lparr>species = ''Species_11'', confidence = fl (fl 0.85 + fl (1 / 2 * fl 0.10))\<rparr> #
           [\<lparr>species = ''Species_12'', confidence = fl (fl 0.03 + fl (1 / 2 * fl 0.05))\<rparr>,
            \<lparr>species = ''Species_13'', confidence = fl (fl 0.01 + fl (1 / 2 * fl 0.02))\<rparr>])"
    by (simp add: io_insert_fails_def io_ok_def simulateInference_half)
  have f: "\<not> (ins_ok io_insert_fails \<and> table_exists (db ready_app))"
    by (simp add: io_insert_fails_def)
  have d: "rows (db ready_app) = []" "ins_ok io_insert_fails = False"
    by (simp_all add: ready_app_eq empty_db_def io_insert_fails_def)
  show ?thesis
    using append_failure_still_shows_result [OF i f, of "''a.jpg''"
        "\<lparr>canceled = False, assets = [''a.jpg'']\<rparr>"] i d
    by (simp add: simulateInference_half)
qed

text \<open>
  C7 as stated fails: the run does not move to a failed state. After a capture whose
  \<^verbatim>\<open>INSERT\<close> failed, the state is the state after the same capture with a working
  store, except for the store, the visible history and one console line; no dialog is
  shown and the results tab is active.
\<close>

theorem failed_append_looks_done:
  "takePicture_resume (Inr (Some ''a.jpg'')) io_insert_fails ready_app =
     (takePicture_resume (Inr (Some ''a.jpg'')) io_ok ready_app)
       \<lparr>history := history ready_app, db := db ready_app,
        console := console ready_app @ [ERROR ''Save error:'']\<rparr>
   \<and> alerts (takePicture_resume (Inr (Some ''a.jpg'')) io_insert_fails ready_app) = []
   \<and> activeTab (takePicture_resume (Inr (Some ''a.jpg'')) io_insert_fails ready_app)
       = TabResults
   \<and> isLoading (takePicture_resume (Inr (Some ''a.jpg'')) io_insert_fails ready_app) = False"
  by (simp add: takePicture_resume_def io_insert_fails_def io_ok_def ready_app_eq
      simulateInference_half savePrediction_def runSync_insert_def loadHistory_def
      getAllSync_recent_def order_by_timestamp_desc_def console_log_def console_error_def
      empty_db_def next_id_def)

section \<open>Properties of the initialisation\<close>

lemma initializeApp_denied:
  assumes "permission s \<noteq> Some True"
  shows "initializeApp (Inr False) db_ok model_ok s =
           (alert ''Permission Denied'' ''Camera permission is required''
              (s\<lparr>permission := Some False\<rparr>))\<lparr>isLoading := False\<rparr>"
    and "initializeApp (Inl e) db_ok model_ok s = initializeApp_catch s"
  using assms by (simp_all add: initializeApp_def)

lemma initializeApp_granted:
  assumes "permission s = Some True \<or> requested = Inr True"
  shows "initializeApp requested db_ok model_ok s =
     (let s0 = (if permission s = Some True then s else s\<lparr>permission := Some True\<rparr>);
          s1 = initDatabase db_ok s0
      in if model_ok then (snd (loadModel True s1))\<lparr>isLoading := False\<rparr>
         else initializeApp_catch (snd (loadModel False s1)))"
  using assms by (auto simp: initializeApp_def loadModel_def Let_def)

text \<open>
  C8, as the code has it. \<^verbatim>\<open>initializeApp\<close> asks for the permission, then runs
  \<^verbatim>\<open>initDatabase\<close>, then \<^verbatim>\<open>loadModel\<close>. When the permission is refused, or asking for it
  throws, it stops there with a dialog (\<^verbatim>\<open>Permission Denied\<close>, respectively
  \<^verbatim>\<open>Failed to initialize app\<close>) and neither later step runs. With the permission, the
  console shows the database step before the model step; a failure of \<^verbatim>\<open>initDatabase\<close>
  is only logged and \<^verbatim>\<open>loadModel\<close> still runs; a failure of \<^verbatim>\<open>loadModel\<close> shows
  \<^verbatim>\<open>Failed to initialize app\<close> and leaves the model unloaded, and while the model is
  unloaded \<^verbatim>\<open>takePicture\<close> refuses with \<^verbatim>\<open>Camera not ready\<close>.
\<close>

theorem initializeApp_sequence:
  "(permission s \<noteq> Some True \<longrightarrow>
        initializeApp (Inr False) db_ok model_ok s =
          (alert ''Permission Denied'' ''Camera permission is required''
             (s\<lparr>permission := Some False\<rparr>))\<lparr>isLoading := False\<rparr>
      \<and> initializeApp (Inl e) db_ok model_ok s = initializeApp_catch s)
   \<and> (permission s = Some True \<or> requested = Inr True \<longrightarrow>
        db (initializeApp requested db_ok model_ok s) = db (initDatabase db_ok s)
      \<and> console (initializeApp requested db_ok model_ok s) =
          console s
          @ [if db_ok then LOG ''Database initialized'' else ERROR ''Database init error:'',
             LOG ''Loading TFLite model...'']
          @ (if model_ok then [LOG ''Model loaded'']
             else [ERROR ''Model loading failed:'', ERROR ''Initialization error:''])
      \<and> model (initializeApp requested db_ok model_ok s) = (model s \<or> model_ok)
      \<and> alerts (initializeApp requested db_ok model_ok s) =
          alerts s @ (if model_ok then [] else [(''Error'', ''Failed to initialize app'')])
      \<and> isLoading (initializeApp requested db_ok model_ok s) = False
      \<and> (\<not> model (initializeApp requested db_ok model_ok s) \<longrightarrow>
           takePicture (initializeApp requested db_ok model_ok s) =
             alert ''Error'' ''Camera not ready'' (initializeApp requested db_ok model_ok s)))"
proof -
  have denied: "initializeApp (Inr False) db_ok model_ok s =
          (alert ''Permission Denied'' ''Camera permission is required''
             (s\<lparr>permission := Some False\<rparr>))\<lparr>isLoading := False\<rparr>
      \<and> initializeApp (Inl e) db_ok model_ok s = initializeApp_catch s"
    if "permission s \<noteq> Some True"
    using initializeApp_denied [OF that] by simp
  have granted: "db (initializeApp requested db_ok model_ok s) = db (initDatabase db_ok s)
      \<and> console (initializeApp requested db_ok model_ok s) =
          console s
          @ [if db_ok then LOG ''Database initialized'' else ERROR ''Database init error:'',
             LOG ''Loading TFLite model...'']
          @ (if model_ok then [LOG ''Model loaded'']
             else [ERROR ''Model loading failed:'', ERROR ''Initialization error:''])
      \<and> model (initializeApp requested db_ok model_ok s) = (model s \<or> model_ok)
      \<and> alerts (initializeApp requested db_ok model_ok s) =
          alerts s @ (if model_ok then [] else [(''Error'', ''Failed to initialize app'')])
      \<and> isLoading (initializeApp requested db_ok model_ok s) = False"
    if "permission s = Some True \<or> requested = Inr True"
    unfolding initializeApp_granted [OF that]
    by (cases db_ok; cases model_ok)
      (simp_all add: Let_def initDatabase_def execSync_create_def loadModel_def
        initializeApp_catch_def console_log_def console_error_def alert_def)
  have refuse: "takePicture t = alert ''Error'' ''Camera not ready'' t" if "\<not> model t" for t
    using that by (simp add: takePicture_def)
  from denied granted refuse show ?thesis by blast
qed

theorem initializeApp_sequence_witness:
  "permission (initial_app no_db) \<noteq> Some True
   \<and> db (initializeApp (Inr False) True True (initial_app no_db)) = no_db
   \<and> model (initializeApp (Inr False) True True (initial_app no_db)) = False
   \<and> alerts (initializeApp (Inr False) True True (initial_app no_db))
       = [(''Permission Denied'', ''Camera permission is required'')]
   \<and> db (initializeApp (Inr True) True False (initial_app no_db)) = empty_db
   \<and> model (initializeApp (Inr True) True False (initial_app no_db)) = False
   \<and> alerts (initializeApp (Inr True) True False (initial_app no_db))
       = [(''Error'', ''Failed to initialize app'')]
   \<and> takePicture (initializeApp (Inr True) True False (initial_app no_db))
       = alert ''Error'' ''Camera not ready''
           (initializeApp (Inr True) True False (initial_app no_db))"
proof -
  have p: "permission (initial_app no_db) \<noteq> Some True" "model (initial_app no_db) = False"
    "alerts (initial_app no_db) = []"
    by (simp_all add: initial_app_def)
  have e: "db (initDatabase True (initial_app no_db)) = empty_db"
    by (simp add: initDatabase_def execSync_create_def console_log_def initial_app_def
        no_db_def empty_db_def)
  have d: "db ((alert ''Permission Denied'' ''Camera permission is required''
             ((initial_app no_db)\<lparr>permission := Some False\<rparr>))\<lparr>isLoading := False\<rparr>) = no_db"
    "model ((alert ''Permission Denied'' ''Camera permission is required''
             ((initial_app no_db)\<lparr>permission := Some False\<rparr>))\<lparr>isLoading := False\<rparr>) = False"
    "alerts ((alert ''Permission Denied'' ''Camera permission is required''
             ((initial_app no_db)\<lparr>permission := Some False\<rparr>))\<lparr>isLoading := False\<rparr>)
       = [(''Permission Denied'', ''Camera permission is required'')]"
    by (simp_all add: alert_def initial_app_def)
  show ?thesis
    using initializeApp_sequence [of "initial_app no_db" True True ModelError "Inr True"]
      initializeApp_sequence [of "initial_app no_db" True False ModelError "Inr True"]
    by (simp add: p e d)
qed

text \<open>
  C8 as stated fails: when creating the table fails, the sequence does not halt and no
  error is shown; the model is loaded, the main screen is shown and a capture runs through
  to the results.
\<close>

theorem failing_schema_does_not_halt:
  "model start_with_failing_schema = True
   \<and> alerts start_with_failing_schema = []
   \<and> isLoading start_with_failing_schema = False
   \<and> table_exists (db start_with_failing_schema) = False
   \<and> render start_with_failing_schema = MainScreen
   \<and> inflight_capture (step PressCapture start_with_failing_schema) = 1
   \<and> activeTab (run [PressCapture, CaptureSettled (Inr (Some ''a.jpg'')) io_ok]
        start_with_failing_schema) = TabResults"
  by (simp add: start_with_failing_schema_def initializeApp_def initDatabase_def
      loadModel_def execSync_create_def console_log_def console_error_def initial_app_def
      no_db_def Let_def render_def takePicture_def cameraRef_current_def
      takePicture_resume_def io_ok_def simulateInference_half savePrediction_def
      runSync_insert_def)

section \<open>At most one capture in flight\<close>

lemma simulateInference_zero:
  "simulateInference 0 0 0 0 =
     [\<lparr>species = ''Species_1'', confidence = fl (fl 0.85 + fl (0 * fl 0.10))\<rparr>,
      \<lparr>species = ''Species_2'', confidence = fl (fl 0.03 + fl (0 * fl 0.05))\<rparr>,
      \<lparr>species = ''Species_3'', confidence = fl (fl 0.01 + fl (0 * fl 0.02))\<rparr>]"
  by (simp add: simulateInference_def SPECIES_NAMES_def Let_def fl_zero)

lemma loadHistory_frame:
  "inflight_capture (loadHistory ok s) = inflight_capture s"
  "isLoading (loadHistory ok s) = isLoading s"
  by (simp_all add: loadHistory_def console_error_def split: sum.splits)

lemma savePrediction_frame:
  obtains s3 where "savePrediction i q clock sp c s = (Normal, s3)"
    and "inflight_capture s3 = inflight_capture s" and "isLoading s3 = isLoading s"
proof
  show "savePrediction i q clock sp c s = (Normal, snd (savePrediction i q clock sp c s))"
    by (simp add: savePrediction_def split: sum.splits)
  show "inflight_capture (snd (savePrediction i q clock sp c s)) = inflight_capture s"
    by (simp add: savePrediction_def loadHistory_frame console_log_def console_error_def
        split: sum.splits)
  show "isLoading (snd (savePrediction i q clock sp c s)) = isLoading s"
    by (simp add: savePrediction_def loadHistory_frame console_log_def console_error_def
        split: sum.splits)
qed

lemma takePicture_catch_frame:
  "inflight_capture (takePicture_catch s) = inflight_capture s"
  "isLoading (takePicture_catch s) = False"
  by (simp_all add: takePicture_catch_def alert_def console_error_def)

lemma takePicture_resume_frame:
  "inflight_capture (takePicture_resume photo w s) = inflight_capture s
   \<and> isLoading (takePicture_resume photo w s) = False"
proof (cases photo)
  case (Inl e)
  then show ?thesis by (simp add: takePicture_resume_def takePicture_catch_frame)
next
  case (Inr p)
  show ?thesis
  proof (cases p)
    case None
    with Inr show ?thesis by (simp add: takePicture_resume_def)
  next
    case (Some uri)
    show ?thesis
    proof (cases "uri = []")
      case True
      with Inr Some show ?thesis by (simp add: takePicture_resume_def)
    next
      case False
      show ?thesis
      proof (cases "inference w")
        case (Inl e)
        with Inr Some False show ?thesis
          by (simp add: takePicture_resume_def takePicture_catch_frame)
      next
        case inf: (Inr preds)
        show ?thesis
        proof (cases preds)
          case Nil
          with Inr Some False inf show ?thesis
            by (simp add: takePicture_resume_def takePicture_catch_frame)
        next
          case (Cons p0 ps)
          obtain s3 where s3:
            "savePrediction (ins_ok w) (sel_ok w) (now w) (species p0) (confidence p0)
               (s\<lparr>capturedImage := Some uri, predictions := Some (p0 # ps)\<rparr>) = (Normal, s3)"
            "inflight_capture s3 =
               inflight_capture (s\<lparr>capturedImage := Some uri, predictions := Some (p0 # ps)\<rparr>)"
            by (rule savePrediction_frame)
          with Inr Some False inf Cons show ?thesis
            by (simp add: takePicture_resume_def)
        qed
      qed
    qed
  qed
qed

lemma clearHistory_onPress_frame:
  "inflight_capture (clearHistory_onPress ok s) = inflight_capture s"
  "isLoading (clearHistory_onPress ok s) = isLoading s"
  by (simp_all add: clearHistory_onPress_def alert_def console_error_def split: sum.splits)

lemma step_capture_guard:
  assumes "capture_guard s" and "\<not> gallery_event e"
  shows "capture_guard (step e s)"
proof (cases e)
  case PressCapture
  with assms(1) show ?thesis
    by (auto simp: capture_guard_def takePicture_def alert_def)
next
  case (CaptureSettled photo w)
  show ?thesis
  proof (cases "inflight_capture s = 0")
    case True
    with CaptureSettled assms(1) show ?thesis by simp
  next
    case False
    with assms(1) have "inflight_capture s = 1" by (simp add: capture_guard_def)
    with CaptureSettled show ?thesis
      by (simp add: capture_guard_def takePicture_resume_frame)
  qed
next
  case PressGallery
  with assms(2) show ?thesis by simp
next
  case (PickSettled result w)
  with assms(2) show ?thesis by simp
next
  case (PressTab t select_ok)
  with assms(1) show ?thesis
    by (simp add: capture_guard_def loadHistory_frame Let_def)
next
  case PressIdentifyAnother
  with assms(1) show ?thesis by (simp add: capture_guard_def)
next
  case PressStartNewScan
  with assms(1) show ?thesis by (simp add: capture_guard_def)
next
  case PressClear
  with assms(1) show ?thesis by (simp add: capture_guard_def clearHistory_def alert_def)
next
  case (PressClearConfirm ok)
  with assms(1) show ?thesis by (simp add: capture_guard_def clearHistory_onPress_frame)
next
  case PressClearCancel
  with assms(1) show ?thesis by (simp add: capture_guard_def)
next
  case (PressGrantPermission requested)
  with assms(1) show ?thesis by (simp add: capture_guard_def split: sum.splits)
qed

lemma run_capture_guard:
  "capture_guard s \<Longrightarrow> list_all (\<lambda>e. \<not> gallery_event e) es \<Longrightarrow> capture_guard (run es s)"
  by (induction es arbitrary: s) (simp_all add: step_capture_guard)

text \<open>
  C4, as the code has it. Along any sequence of events without gallery events, starting
  with no capture in flight (or one, with the loading flag set), at most one call of
  \<^verbatim>\<open>takePicture\<close> is in flight at any time, and the loading flag is set while it is.
  While the loading flag is set the capture button is disabled: a press on it changes
  nothing (no run starts, nothing is queued, no dialog is shown), so the run in flight
  proceeds as if the press had not happened.
\<close>

theorem capture_runs_never_overlap:
  assumes "capture_guard s" and "list_all (\<lambda>e. \<not> gallery_event e) es"
  shows "inflight_capture (run es s) \<le> 1
       \<and> (inflight_capture (run es s) = 1 \<longrightarrow> isLoading (run es s))
       \<and> (isLoading s \<longrightarrow> step PressCapture s = s \<and> run (PressCapture # es) s = run es s)"
proof -
  have "capture_guard (run es s)"
    using assms by (rule run_capture_guard)
  then show ?thesis
    by (auto simp: capture_guard_def)
qed

theorem capture_runs_never_overlap_witness:
  "capture_guard ready_app
   \<and> list_all (\<lambda>e. \<not> gallery_event e)
        [PressCapture, PressCapture, PressTab TabHistory True, PressCapture]
   \<and> inflight_capture
        (run [PressCapture, PressCapture, PressTab TabHistory True, PressCapture] ready_app) = 1
   \<and> isLoading (step PressCapture ready_app)
   \<and> step PressCapture (step PressCapture ready_app) = step PressCapture ready_app"
proof -
  have g: "capture_guard ready_app"
    by (simp add: capture_guard_def ready_app_eq)
  have l: "list_all (\<lambda>e. \<not> gallery_event e)
        [PressCapture, PressCapture, PressTab TabHistory True, PressCapture]"
    by simp
  have g1: "capture_guard (step PressCapture ready_app)"
    "isLoading (step PressCapture ready_app)"
    by (simp_all add: capture_guard_def ready_app_eq render_def takePicture_def
        cameraRef_current_def)
  have n: "inflight_capture
        (run [PressCapture, PressCapture, PressTab TabHistory True, PressCapture] ready_app) = 1"
    by (simp add: ready_app_eq render_def takePicture_def cameraRef_current_def
        loadHistory_def getAllSync_recent_def order_by_timestamp_desc_def empty_db_def)
  show ?thesis
    using capture_runs_never_overlap [OF g l]
      capture_runs_never_overlap [OF g1(1), of "[]"] g l g1 n
    by simp
qed

text \<open>
  C4 as stated fails: the gallery button is not disabled while a capture is in flight.
  A gallery pick started then is accepted without any dialog, both runs are in flight
  together, both save a record, and the predictions of the first run are replaced by those
  of the second.
\<close>

theorem gallery_pick_during_capture:
  "inflight_capture gallery_during_capture = 1
   \<and> inflight_pick gallery_during_capture = 1
   \<and> alerts gallery_during_capture = []
   \<and> predictions first_run_settled = Some (simulateInference (1 / 2) (1 / 2) (1 / 2) (1 / 2))
   \<and> predictions both_runs_settled = Some (simulateInference 0 0 0 0)
   \<and> predictions both_runs_settled \<noteq> predictions first_run_settled
   \<and> map h_species (rows (db both_runs_settled)) = [''Species_11'', ''Species_1'']
   \<and> alerts both_runs_settled = []"
  by (simp add: both_runs_settled_def first_run_settled_def gallery_during_capture_def
      ready_app_eq io_ok_def io_other_def render_def takePicture_def cameraRef_current_def
      pickImage_def takePicture_resume_def pickImage_resume_def savePrediction_def
      runSync_insert_def loadHistory_def getAllSync_recent_def order_by_timestamp_desc_def
      console_log_def empty_db_def next_id_def simulateInference_half
      simulateInference_zero)

end
